(* ===== verification/Source_Prelude.thy ===== *)
theory Source_Prelude
  imports Main
begin

text \<open>
  Shared vocabulary of the development: the panics of the Rust code as values, the two
  result shapes every operation of \<^verbatim>\<open>source.rs\<close> has (a value or a panic; an optional
  value or a panic), the \<^verbatim>\<open>?\<close> operator and \<^verbatim>\<open>unwrap\<close> as combinators on them, and
  the list facts that the component theories share. The collections declared here carry
  the unfolding rules of the components, so that a property is proved by
  \<open>simp add: query_defs\<close> and the lemmas of its component.
\<close>

section \<open>Collections\<close>

named_theorems str_simps "measures and slices of strings"
named_theorems scan_simps "operations of the scanner"
named_theorems query_defs "definitions of the position queries"
named_theorems edit_defs "definitions of the mutating operations"

section \<open>Panics and results\<close>

text \<open>
  A panic stops the Rust program; the model returns it as the left summand. The
  constructors name the panic sites of the modelled code: \<^verbatim>\<open>Option::unwrap\<close> on
  \<^verbatim>\<open>None\<close>, \<^verbatim>\<open>Result::unwrap\<close> on \<^verbatim>\<open>Err\<close>, \<^verbatim>\<open>expect\<close>, a \<^verbatim>\<open>usize\<close> subtraction below
  zero, a string slice whose bounds are out of range or inside a character, and a
  duplicate definition in a deduplicating scope.
\<close>

datatype panic =
    Unwrap_None
  | Unwrap_Err
  | Expect_Failed
  | Sub_Overflow
  | Str_Index
  | Duplicate_Definition

type_synonym 'a result = "panic + 'a"

text \<open>\<^verbatim>\<open>Option::unwrap\<close>.\<close>

definition unwrap :: "'a option \<Rightarrow> 'a result" where
  "unwrap x = (case x of None \<Rightarrow> Inl Unwrap_None | Some v \<Rightarrow> Inr v)"

text \<open>Sequencing of two computations that may panic.\<close>

definition rbind :: "'a result \<Rightarrow> ('a \<Rightarrow> 'b result) \<Rightarrow> 'b result" where
  "rbind m f = (case m of Inl p \<Rightarrow> Inl p | Inr v \<Rightarrow> f v)"

text \<open>
  The \<^verbatim>\<open>?\<close> operator inside a function that returns \<^verbatim>\<open>Option\<close> and may panic: a
  panic and an absent value both end the function.
\<close>

definition try_opt :: "'a option result \<Rightarrow> ('a \<Rightarrow> 'b option result) \<Rightarrow> 'b option result" where
  "try_opt m f = (case m of Inl p \<Rightarrow> Inl p | Inr None \<Rightarrow> Inr None | Inr (Some v) \<Rightarrow> f v)"

text \<open>\<^verbatim>\<open>usize\<close> subtraction of one, which panics at zero.\<close>

definition pred_usize :: "nat \<Rightarrow> nat result" where
  "pred_usize i = (if i = 0 then Inl Sub_Overflow else Inr (i - 1))"

text \<open>A computation that did not panic.\<close>

definition no_panic :: "'a result \<Rightarrow> bool" where
  "no_panic m = (case m of Inl _ \<Rightarrow> False | Inr _ \<Rightarrow> True)"

lemma unwrap_simps [simp]:
  "unwrap None = Inl Unwrap_None"
  "unwrap (Some v) = Inr v"
  by (simp_all add: unwrap_def)

lemma rbind_simps [simp]:
  "rbind (Inl p) f = Inl p"
  "rbind (Inr v) f = f v"
  by (simp_all add: rbind_def)

lemma try_opt_simps [simp]:
  "try_opt (Inl p) f = Inl p"
  "try_opt (Inr None) f = Inr None"
  "try_opt (Inr (Some v)) f = f v"
  by (simp_all add: try_opt_def)

lemma pred_usize_simps [simp]:
  "pred_usize 0 = Inl Sub_Overflow"
  "0 < i \<Longrightarrow> pred_usize i = Inr (i - 1)"
  "pred_usize (Suc i) = Inr i"
  by (simp_all add: pred_usize_def)

lemma no_panic_simps [simp]:
  "no_panic (Inl p) = False"
  "no_panic (Inr v) = True"
  by (simp_all add: no_panic_def)

lemma no_panic_iff: "no_panic m \<longleftrightarrow> (\<exists>v. m = Inr v)"
  by (cases m) simp_all

lemma rbind_eq_Inr_iff:
  "rbind m f = Inr w \<longleftrightarrow> (\<exists>v. m = Inr v \<and> f v = Inr w)"
  by (cases m) simp_all

lemma try_opt_eq_Some_iff:
  "try_opt m f = Inr (Some w) \<longleftrightarrow> (\<exists>v. m = Inr (Some v) \<and> f v = Inr (Some w))"
  by (auto simp: try_opt_def split: sum.splits option.splits)

section \<open>Lists\<close>

text \<open>\<^verbatim>\<open>slice::get\<close> and \<^verbatim>\<open>slice::last\<close>: an element, or \<^verbatim>\<open>None\<close> out of range.\<close>

definition get_at :: "'a list \<Rightarrow> nat \<Rightarrow> 'a option" where
  "get_at xs i = (if i < length xs then Some (xs ! i) else None)"

definition last_opt :: "'a list \<Rightarrow> 'a option" where
  "last_opt xs = (if xs = [] then None else Some (last xs))"

lemma get_at_simps [simp]:
  "i < length xs \<Longrightarrow> get_at xs i = Some (xs ! i)"
  "length xs \<le> i \<Longrightarrow> get_at xs i = None"
  by (simp_all add: get_at_def)

lemma get_at_eq_Some_iff: "get_at xs i = Some x \<longleftrightarrow> i < length xs \<and> xs ! i = x"
  by (auto simp: get_at_def)

lemma last_opt_simps [simp]:
  "last_opt [] = None"
  "xs \<noteq> [] \<Longrightarrow> last_opt xs = Some (last xs)"
  by (simp_all add: last_opt_def)

text \<open>Prefix sums of positive weights: the arithmetic behind every offset.\<close>

lemma sum_list_map_take_le:
  fixes f :: "'a \<Rightarrow> nat"
  shows "sum_list (map f (take n xs)) \<le> sum_list (map f xs)"
proof -
  have "sum_list (map f xs) = sum_list (map f (take n xs)) + sum_list (map f (drop n xs))"
    by (metis append_take_drop_id map_append sum_list_append)
  then show ?thesis by simp
qed

lemma sum_list_pos_eq_0_iff:
  fixes f :: "'a \<Rightarrow> nat"
  assumes "\<And>x. 0 < f x"
  shows "sum_list (map f xs) = 0 \<longleftrightarrow> xs = []"
  using assms by (cases xs) (auto simp: add_eq_0_iff_both_eq_0 dest: less_imp_neq)

text \<open>A strictly increasing list of keys, and how many of them lie below a bound.\<close>

lemma sorted_wrt_less_nth:
  "sorted_wrt (<) (ks :: nat list) \<Longrightarrow> i < j \<Longrightarrow> j < length ks \<Longrightarrow> ks ! i < ks ! j"
  by (simp add: sorted_wrt_iff_nth_less)

lemma filter_le_sorted_take:
  assumes "sorted_wrt (<) (map k xs)"
  shows "filter (\<lambda>x. k x \<le> (b :: nat)) xs = take (length (filter (\<lambda>x. k x \<le> b) xs)) xs"
  using assms
proof (induction xs)
  case Nil
  show ?case by simp
next
  case (Cons x xs)
  show ?case
  proof (cases "k x \<le> b")
    case True
    with Cons show ?thesis by simp
  next
    case False
    with Cons.prems have "\<forall>y \<in> set xs. \<not> k y \<le> b" by auto
    then have "filter (\<lambda>x. k x \<le> b) xs = []" by (simp add: filter_empty_conv)
    with False show ?thesis by simp
  qed
qed

lemma butlast_snoc_Cons: "xs \<noteq> [] \<Longrightarrow> butlast (x # xs) = x # butlast xs"
  by simp

text \<open>Dropping the last element once or twice from a list of two or more changes it each time.\<close>

lemma butlast_iter_neq:
  assumes "2 \<le> length xs"
  shows "butlast (butlast xs) \<noteq> butlast xs" "butlast xs \<noteq> xs" "butlast (butlast xs) \<noteq> xs"
  using assms by (auto dest!: arg_cong [where f = length])

end
