(* ===== verification/Rust_Str.thy ===== *)
theory Rust_Str
  imports Source_Prelude
begin

text \<open>
  Rust's \<^verbatim>\<open>char\<close>, \<^verbatim>\<open>str\<close> and \<^verbatim>\<open>String\<close> as far as \<^verbatim>\<open>source.rs\<close> uses them. A
  \<^verbatim>\<open>String\<close> is valid UTF-8, so it is determined by the sequence of its characters: the
  model is the list of code points, and every byte offset of the code is the UTF-8
  length of a prefix of that list. An offset that is no such length lies inside a
  character (or past the end); \<^verbatim>\<open>str::get\<close> answers \<^verbatim>\<open>None\<close> there and indexing
  (\<^verbatim>\<open>&s[a..]\<close>, \<^verbatim>\<open>replace_range\<close>) panics, which \<open>split_at_byte\<close> decides.
  The lemmas give the algebra of byte and UTF-16 lengths over append, the
  characterisation of \<open>split_at_byte\<close> by prefixes, and the uniqueness of the prefix
  of a given byte length.
\<close>

section \<open>Characters\<close>

type_synonym rchar = nat
type_synonym rstr = "rchar list"

abbreviation LF :: rchar where "LF \<equiv> 10"
abbreviation CR :: rchar where "CR \<equiv> 13"

text \<open>\<^verbatim>\<open>char::len_utf8\<close> and \<^verbatim>\<open>char::len_utf16\<close>.\<close>

definition char_len_utf8 :: "rchar \<Rightarrow> nat" where
  "char_len_utf8 c = (if c < 0x80 then 1 else if c < 0x800 then 2 else if c < 0x10000 then 3 else 4)"

definition char_len_utf16 :: "rchar \<Rightarrow> nat" where
  "char_len_utf16 c = (if c < 0x10000 then 1 else 2)"

text \<open>
  The line terminators. The splitting rule of the position index names \<^verbatim>\<open>\n\<close> and
  \<^verbatim>\<open>\r\<close>; the general lemmas of the development use only that these two are
  terminators.
\<close>

definition is_newline :: "rchar \<Rightarrow> bool" where
  "is_newline c \<longleftrightarrow> c = LF \<or> c = CR"

lemma len_utf8_pos [simp]: "0 < char_len_utf8 c"
  by (simp add: char_len_utf8_def)

lemma len_utf16_pos [simp]: "0 < char_len_utf16 c"
  by (simp add: char_len_utf16_def)

lemma len_utf8_neq_0 [simp]: "char_len_utf8 c \<noteq> 0"
  by (simp add: char_len_utf8_def)

lemma len_utf16_neq_0 [simp]: "char_len_utf16 c \<noteq> 0"
  by (simp add: char_len_utf16_def)

lemma len_utf8_bounds: "1 \<le> char_len_utf8 c \<and> char_len_utf8 c \<le> 4"
  by (simp add: char_len_utf8_def)

lemma len_utf16_le_len_utf8: "char_len_utf16 c \<le> char_len_utf8 c"
  by (simp add: char_len_utf8_def char_len_utf16_def)

lemma len_ascii [simp]:
  "char_len_utf8 LF = 1" "char_len_utf8 CR = 1" "char_len_utf16 LF = 1" "char_len_utf16 CR = 1"
  by (simp_all add: char_len_utf8_def char_len_utf16_def)

lemma is_newline_LF_CR [simp]: "is_newline LF" "is_newline CR"
  by (simp_all add: is_newline_def)

section \<open>Lengths of strings\<close>

text \<open>\<^verbatim>\<open>str::len\<close> (in bytes) and \<^verbatim>\<open>StrExt::len_utf16\<close> (in UTF-16 code units).\<close>

definition str_len :: "rstr \<Rightarrow> nat" where
  "str_len s = sum_list (map char_len_utf8 s)"

definition str_len_utf16 :: "rstr \<Rightarrow> nat" where
  "str_len_utf16 s = sum_list (map char_len_utf16 s)"

lemma str_len_simps [simp, str_simps]:
  "str_len [] = 0"
  "str_len (c # s) = char_len_utf8 c + str_len s"
  "str_len (s @ t) = str_len s + str_len t"
  by (simp_all add: str_len_def)

lemma str_len_utf16_simps [simp, str_simps]:
  "str_len_utf16 [] = 0"
  "str_len_utf16 (c # s) = char_len_utf16 c + str_len_utf16 s"
  "str_len_utf16 (s @ t) = str_len_utf16 s + str_len_utf16 t"
  by (simp_all add: str_len_utf16_def)

lemma str_len_eq_0_iff [simp]: "str_len s = 0 \<longleftrightarrow> s = []"
  unfolding str_len_def by (rule sum_list_pos_eq_0_iff) simp

lemma str_len_utf16_eq_0_iff [simp]: "str_len_utf16 s = 0 \<longleftrightarrow> s = []"
  unfolding str_len_utf16_def by (rule sum_list_pos_eq_0_iff) simp

lemma length_le_str_len: "length s \<le> str_len s"
  by (induction s) (simp_all add: Suc_le_eq add_strict_increasing)

lemma str_len_utf16_le_str_len: "str_len_utf16 s \<le> str_len s"
  by (induction s) (simp_all add: add_mono len_utf16_le_len_utf8)

lemma str_len_take_le: "str_len (take n s) \<le> str_len s"
  unfolding str_len_def by (rule sum_list_map_take_le)

section \<open>Character boundaries and slices\<close>

text \<open>
  Splitting at a byte offset: the prefix of exactly that many bytes and the rest, or
  \<open>None\<close> when the offset is past the end or inside a character.
\<close>

primrec split_at_byte :: "rstr \<Rightarrow> nat \<Rightarrow> (rstr \<times> rstr) option" where
  "split_at_byte [] n = (if n = 0 then Some ([], []) else None)"
| "split_at_byte (c # s) n =
     (if n = 0 then Some ([], c # s)
      else if n < char_len_utf8 c then None
      else map_option (\<lambda>(p, q). (c # p, q)) (split_at_byte s (n - char_len_utf8 c)))"

text \<open>\<^verbatim>\<open>str::is_char_boundary\<close>.\<close>

definition is_char_boundary :: "rstr \<Rightarrow> nat \<Rightarrow> bool" where
  "is_char_boundary s n \<longleftrightarrow> split_at_byte s n \<noteq> None"

text \<open>\<^verbatim>\<open>str::get(a..b)\<close>: the slice, or \<^verbatim>\<open>None\<close>.\<close>

definition str_get :: "rstr \<Rightarrow> nat \<Rightarrow> nat \<Rightarrow> rstr option" where
  "str_get s a b =
     (if b < a then None
      else case split_at_byte s a of
        None \<Rightarrow> None
      | Some (_, r) \<Rightarrow> map_option fst (split_at_byte r (b - a)))"

text \<open>The indexing forms \<^verbatim>\<open>&s[a..]\<close> and \<^verbatim>\<open>&s[..a]\<close>, which panic where \<^verbatim>\<open>get\<close> is \<^verbatim>\<open>None\<close>.\<close>

definition str_from :: "rstr \<Rightarrow> nat \<Rightarrow> rstr result" where
  "str_from s a = (case split_at_byte s a of None \<Rightarrow> Inl Str_Index | Some (_, r) \<Rightarrow> Inr r)"

definition str_to :: "rstr \<Rightarrow> nat \<Rightarrow> rstr result" where
  "str_to s a = (case split_at_byte s a of None \<Rightarrow> Inl Str_Index | Some (p, _) \<Rightarrow> Inr p)"

text \<open>
  \<^verbatim>\<open>String::replace_range(a..b, with)\<close>: panics unless \<open>a \<le> b\<close> and both are character
  boundaries of the string.
\<close>

definition replace_range :: "rstr \<Rightarrow> nat \<Rightarrow> nat \<Rightarrow> rstr \<Rightarrow> rstr result" where
  "replace_range s a b w =
     (if b < a then Inl Str_Index
      else case split_at_byte s a of
        None \<Rightarrow> Inl Str_Index
      | Some (p, r) \<Rightarrow>
          (case split_at_byte r (b - a) of
             None \<Rightarrow> Inl Str_Index
           | Some (_, q) \<Rightarrow> Inr (p @ w @ q)))"

text \<open>\<^verbatim>\<open>str::ends_with\<close> and \<^verbatim>\<open>str::starts_with\<close> for a character pattern.\<close>

definition ends_with :: "rstr \<Rightarrow> rchar \<Rightarrow> bool" where
  "ends_with s c \<longleftrightarrow> s \<noteq> [] \<and> last s = c"

definition starts_with :: "rstr \<Rightarrow> rchar \<Rightarrow> bool" where
  "starts_with s c \<longleftrightarrow> s \<noteq> [] \<and> hd s = c"

lemma ends_with_simps [simp]:
  "\<not> ends_with [] c"
  "ends_with (s @ [d]) c \<longleftrightarrow> d = c"
  "t \<noteq> [] \<Longrightarrow> ends_with (s @ t) c \<longleftrightarrow> ends_with t c"
  by (simp_all add: ends_with_def)

lemma starts_with_simps [simp]:
  "\<not> starts_with [] c"
  "starts_with (d # s) c \<longleftrightarrow> d = c"
  "starts_with (s @ t) c \<longleftrightarrow> (if s = [] then starts_with t c else starts_with s c)"
  by (simp_all add: starts_with_def)

lemma ends_with_iff: "ends_with s c \<longleftrightarrow> (\<exists>p. s = p @ [c])"
  by (auto simp: ends_with_def) (metis append_butlast_last_id)

section \<open>Splitting is by prefixes\<close>

lemma split_at_byte_append:
  "split_at_byte (p @ q) (str_len p) = Some (p, q)"
proof (induction p)
  case Nil
  show ?case by (cases q) simp_all
next
  case (Cons c p)
  then show ?case by simp
qed

lemma split_at_byte_SomeD:
  "split_at_byte s n = Some (p, q) \<Longrightarrow> s = p @ q \<and> str_len p = n"
proof (induction s arbitrary: n p q)
  case Nil
  then show ?case by (simp split: if_splits)
next
  case (Cons c s)
  show ?case
  proof (cases "n = 0")
    case True
    with Cons.prems show ?thesis by simp
  next
    case False
    with Cons.prems obtain p' where ge: "char_len_utf8 c \<le> n"
      and rec: "split_at_byte s (n - char_len_utf8 c) = Some (p', q)" and p: "p = c # p'"
      by (auto split: if_splits)
    from Cons.IH [OF rec] ge p show ?thesis by simp
  qed
qed

lemma split_at_byte_Some_iff:
  "split_at_byte s n = Some (p, q) \<longleftrightarrow> s = p @ q \<and> str_len p = n"
  using split_at_byte_SomeD split_at_byte_append by blast

lemma is_char_boundary_iff:
  "is_char_boundary s n \<longleftrightarrow> (\<exists>p q. s = p @ q \<and> str_len p = n)"
  by (auto simp: is_char_boundary_def split_at_byte_Some_iff [symmetric])

lemma is_char_boundary_append [simp]: "is_char_boundary (p @ q) (str_len p)"
  by (auto simp: is_char_boundary_iff)

lemma is_char_boundary_0 [simp]: "is_char_boundary s 0"
  using is_char_boundary_append [of "[]" s] by simp

lemma is_char_boundary_len [simp]: "is_char_boundary s (str_len s)"
  using is_char_boundary_append [of s "[]"] by simp

lemma is_char_boundary_le: "is_char_boundary s n \<Longrightarrow> n \<le> str_len s"
  by (auto simp: is_char_boundary_iff)

text \<open>Two splits of one string at the same byte offset are the same split.\<close>

lemma prefix_str_len_unique:
  assumes "p @ q = p' @ q'" and "str_len p = str_len p'"
  shows "p = p' \<and> q = q'"
proof -
  have "split_at_byte (p @ q) (str_len p) = Some (p, q)"
    by (rule split_at_byte_append)
  moreover have "split_at_byte (p @ q) (str_len p) = Some (p', q')"
    using assms split_at_byte_append [of p' q'] by simp
  ultimately show ?thesis by simp
qed

text \<open>Of two prefixes of one string, the one with fewer bytes is a prefix of the other.\<close>

lemma prefix_str_len_le:
  assumes "p @ q = p' @ q'" and "str_len p \<le> str_len p'"
  shows "\<exists>m. p' = p @ m \<and> q = m @ q'"
proof -
  from assms(1) consider m where "p' = p @ m" "q = m @ q'" | m where "p = p' @ m" "q' = m @ q"
    by (auto simp: append_eq_append_conv2)
  then show ?thesis
  proof cases
    case 1
    then show ?thesis by blast
  next
    case 2
    with assms(2) have "m = []" by simp
    with 2 show ?thesis by simp
  qed
qed

text \<open>The same, measured in UTF-16 units.\<close>

lemma prefix_str_len_utf16_le:
  assumes "p @ q = p' @ q'" and "str_len_utf16 p \<le> str_len_utf16 p'"
  shows "\<exists>m. p' = p @ m \<and> q = m @ q'"
proof -
  from assms(1) consider m where "p' = p @ m" "q = m @ q'" | m where "p = p' @ m" "q' = m @ q"
    by (auto simp: append_eq_append_conv2)
  then show ?thesis
  proof cases
    case 1
    then show ?thesis by blast
  next
    case 2
    with assms(2) have "m = []" by simp
    with 2 show ?thesis by simp
  qed
qed

section \<open>Slices in terms of prefixes\<close>

lemma str_from_append [simp]: "str_from (p @ q) (str_len p) = Inr q"
  by (simp add: str_from_def split_at_byte_append)

lemma str_to_append [simp]: "str_to (p @ q) (str_len p) = Inr p"
  by (simp add: str_to_def split_at_byte_append)

lemma str_get_append [simp]:
  "str_get (p @ m @ q) (str_len p) (str_len p + str_len m) = Some m"
  by (simp add: str_get_def split_at_byte_append)

lemma str_get_Some_iff:
  "str_get s a b = Some m \<longleftrightarrow> (\<exists>p q. s = p @ m @ q \<and> str_len p = a \<and> a + str_len m = b)"
proof
  assume "str_get s a b = Some m"
  then obtain p r q where le: "a \<le> b" and "split_at_byte s a = Some (p, r)"
    and "split_at_byte r (b - a) = Some (m, q)"
    by (auto simp: str_get_def split: if_splits option.splits)
  then have "s = p @ m @ q" "str_len p = a" "str_len m = b - a"
    by (auto dest!: split_at_byte_SomeD)
  with le have "s = p @ m @ q \<and> str_len p = a \<and> a + str_len m = b" by simp
  then show "\<exists>p q. s = p @ m @ q \<and> str_len p = a \<and> a + str_len m = b" by blast
next
  assume "\<exists>p q. s = p @ m @ q \<and> str_len p = a \<and> a + str_len m = b"
  then show "str_get s a b = Some m" by auto
qed

lemma str_from_eq_Inr_iff: "str_from s a = Inr r \<longleftrightarrow> (\<exists>p. s = p @ r \<and> str_len p = a)"
proof
  assume "str_from s a = Inr r"
  then obtain p where "split_at_byte s a = Some (p, r)"
    by (auto simp: str_from_def split: option.splits)
  then show "\<exists>p. s = p @ r \<and> str_len p = a"
    by (auto dest: split_at_byte_SomeD)
next
  assume "\<exists>p. s = p @ r \<and> str_len p = a"
  then show "str_from s a = Inr r" by auto
qed

lemma str_from_no_panic_iff: "no_panic (str_from s a) \<longleftrightarrow> is_char_boundary s a"
  by (auto simp: str_from_def is_char_boundary_def split: option.splits)

lemma replace_range_append [simp]:
  "replace_range (p @ m @ q) (str_len p) (str_len p + str_len m) w = Inr (p @ w @ q)"
  by (simp add: replace_range_def split_at_byte_append)

lemma replace_range_eq_Inr_iff:
  "replace_range s a b w = Inr t \<longleftrightarrow>
     (\<exists>p m q. s = p @ m @ q \<and> str_len p = a \<and> a + str_len m = b \<and> t = p @ w @ q)"
proof
  assume "replace_range s a b w = Inr t"
  then obtain p r m q where le: "a \<le> b" and "split_at_byte s a = Some (p, r)"
    and "split_at_byte r (b - a) = Some (m, q)" and t: "t = p @ w @ q"
    by (auto simp: replace_range_def split: if_splits option.splits)
  then have "s = p @ m @ q" "str_len p = a" "str_len m = b - a"
    by (auto dest!: split_at_byte_SomeD)
  with le t have "s = p @ m @ q \<and> str_len p = a \<and> a + str_len m = b \<and> t = p @ w @ q"
    by simp
  then show "\<exists>p m q. s = p @ m @ q \<and> str_len p = a \<and> a + str_len m = b \<and> t = p @ w @ q"
    by blast
next
  assume "\<exists>p m q. s = p @ m @ q \<and> str_len p = a \<and> a + str_len m = b \<and> t = p @ w @ q"
  then show "replace_range s a b w = Inr t" by auto
qed

text \<open>
  \<^verbatim>\<open>replace_range\<close> panics exactly when the range is not a range of character
  boundaries of the string.
\<close>

lemma replace_range_no_panic_iff:
  "no_panic (replace_range s a b w) \<longleftrightarrow>
     a \<le> b \<and> is_char_boundary s a \<and> is_char_boundary s b"
proof
  assume "no_panic (replace_range s a b w)"
  then obtain t where "replace_range s a b w = Inr t" by (auto simp: no_panic_iff)
  then obtain p m q where s: "s = p @ m @ q" and a: "str_len p = a" and b: "a + str_len m = b"
    by (auto simp: replace_range_eq_Inr_iff)
  from s a have "is_char_boundary s a" by auto
  moreover from s a b have "is_char_boundary s b"
    using is_char_boundary_append [of "p @ m" q] by simp
  ultimately show "a \<le> b \<and> is_char_boundary s a \<and> is_char_boundary s b" using b by simp
next
  assume asm: "a \<le> b \<and> is_char_boundary s a \<and> is_char_boundary s b"
  then obtain p q where 1: "s = p @ q" "str_len p = a"
    unfolding is_char_boundary_iff by blast
  from asm obtain p' q' where 2: "s = p' @ q'" "str_len p' = b"
    unfolding is_char_boundary_iff by blast
  from 1 2 asm have "p @ q = p' @ q'" "str_len p \<le> str_len p'" by simp_all
  then obtain m where "p' = p @ m" "q = m @ q'"
    using prefix_str_len_le by blast
  with 1 2 have "replace_range s a b w = Inr (p @ w @ q')"
    using replace_range_append [of p m q' w] by simp
  then show "no_panic (replace_range s a b w)" by simp
qed

section \<open>Slices of a prefix\<close>

text \<open>A split at or before the end of a prefix is a split of the prefix.\<close>

lemma split_at_byte_prefix:
  "b \<le> str_len p \<Longrightarrow>
   split_at_byte (p @ r) b = map_option (\<lambda>(x, y). (x, y @ r)) (split_at_byte p b)"
proof (induction p arbitrary: b)
  case Nil
  then show ?case by (cases r) simp_all
next
  case (Cons c p)
  then show ?case by (auto simp: option.map_comp comp_def split_beta)
qed

lemma str_get_prefix:
  assumes "e \<le> str_len p"
  shows "str_get (p @ r) a e = str_get p a e"
proof (cases "a \<le> e")
  case False
  then show ?thesis by (simp add: str_get_def)
next
  case True
  show ?thesis
  proof (cases "split_at_byte p a")
    case None
    with True assms show ?thesis by (simp add: str_get_def split_at_byte_prefix)
  next
    case (Some xy)
    obtain x y where xy: "xy = (x, y)" by (cases xy)
    with Some have p: "p = x @ y" "str_len x = a" by (auto dest: split_at_byte_SomeD)
    with assms True have "e - a \<le> str_len y" by simp
    with Some xy True assms show ?thesis
      by (simp add: str_get_def split_at_byte_prefix [of a p r] split_at_byte_prefix [of "e - a" y r]
          split_beta option.map_comp comp_def split: option.splits)
  qed
qed

end
