(* ===== verification/Scanner.thy ===== *)
theory Scanner
  imports Rust_Str
begin

text \<open>
  The string scanner that \<^verbatim>\<open>lines_from\<close> drives (\<^verbatim>\<open>unscanny::Scanner\<close>): a string and a
  cursor into it that always rests on a character boundary. The model keeps the cursor
  and the text after it. \<open>eat_until\<close> takes the pattern as a closure with its
  captured state, because the closure of \<^verbatim>\<open>lines_from\<close> counts UTF-16 units while it
  tests characters. The lemmas give one equation per shape of the remaining text and
  say that no operation lengthens it, which is what the termination of the line scan
  rests on.
\<close>

record scanner =
  rest :: rstr
  cursor :: nat

text \<open>\<^verbatim>\<open>Scanner::new\<close>, \<^verbatim>\<open>done\<close>, \<^verbatim>\<open>eat\<close> and \<^verbatim>\<open>eat_if\<close> with a character pattern.\<close>

definition scanner_new :: "rstr \<Rightarrow> scanner" where
  "scanner_new s = \<lparr>rest = s, cursor = 0\<rparr>"

definition scanner_done :: "scanner \<Rightarrow> bool" where
  "scanner_done s \<longleftrightarrow> rest s = []"

definition eat :: "scanner \<Rightarrow> rchar option \<times> scanner" where
  "eat s =
     (case rest s of
        [] \<Rightarrow> (None, s)
      | c # cs \<Rightarrow> (Some c, s\<lparr>rest := cs, cursor := cursor s + char_len_utf8 c\<rparr>))"

definition eat_if :: "rchar \<Rightarrow> scanner \<Rightarrow> bool \<times> scanner" where
  "eat_if c s =
     (if starts_with (rest s) c
      then (True, s\<lparr>rest := tl (rest s), cursor := cursor s + char_len_utf8 c\<rparr>)
      else (False, s))"

lemma length_rest_eat: "length (rest (snd (eat s))) \<le> length (rest s)"
  by (simp add: eat_def split: list.split)

lemma length_rest_eat_less:
  "\<not> scanner_done s \<Longrightarrow> length (rest (snd (eat s))) < length (rest s)"
  by (simp add: eat_def scanner_done_def split: list.split)

lemma length_rest_eat_if: "length (rest (snd (eat_if c s))) \<le> length (rest s)"
  by (simp add: eat_if_def)

text \<open>
  \<^verbatim>\<open>eat_until\<close> with a closure pattern: while the scanner is not done and the closure
  rejects the next character, eat it. The closure \<open>pat\<close> maps its captured state and
  the character to the new state and its verdict; it runs once for every character
  looked at, the one that stops the loop included.
\<close>

function eat_until :: "('a \<Rightarrow> rchar \<Rightarrow> 'a \<times> bool) \<Rightarrow> 'a \<Rightarrow> scanner \<Rightarrow> 'a \<times> scanner" where
  "eat_until pat a s =
     (if scanner_done s then (a, s)
      else case pat a (hd (rest s)) of
        (a', True) \<Rightarrow> (a', s)
      | (a', False) \<Rightarrow> eat_until pat a' (snd (eat s)))"
  by pat_completeness auto
termination
  by (relation "measure (\<lambda>(pat, a, s). length (rest s))") (auto simp: length_rest_eat_less)

declare eat_until.simps [simp del]

lemma scanner_new_simps [simp, scan_simps]:
  "rest (scanner_new s) = s" "cursor (scanner_new s) = 0"
  by (simp_all add: scanner_new_def)

lemma scanner_done_iff [simp, scan_simps]: "scanner_done s \<longleftrightarrow> rest s = []"
  by (simp add: scanner_done_def)

lemma eat_simps [scan_simps]:
  "rest s = [] \<Longrightarrow> eat s = (None, s)"
  "rest s = c # cs \<Longrightarrow> eat s = (Some c, s\<lparr>rest := cs, cursor := cursor s + char_len_utf8 c\<rparr>)"
  by (simp_all add: eat_def)

lemma eat_if_simps [scan_simps]:
  "rest s = [] \<Longrightarrow> eat_if c s = (False, s)"
  "rest s = d # cs \<Longrightarrow> d \<noteq> c \<Longrightarrow> eat_if c s = (False, s)"
  "rest s = c # cs \<Longrightarrow> eat_if c s = (True, s\<lparr>rest := cs, cursor := cursor s + char_len_utf8 c\<rparr>)"
  by (simp_all add: eat_if_def)

lemma eat_until_Nil [scan_simps]: "rest s = [] \<Longrightarrow> eat_until pat a s = (a, s)"
  by (simp add: eat_until.simps [of pat a s])

lemma eat_until_stop [scan_simps]:
  "rest s = c # cs \<Longrightarrow> pat a c = (a', True) \<Longrightarrow> eat_until pat a s = (a', s)"
  by (simp add: eat_until.simps [of pat a s])

lemma eat_until_go [scan_simps]:
  "rest s = c # cs \<Longrightarrow> pat a c = (a', False) \<Longrightarrow>
   eat_until pat a s = eat_until pat a' (s\<lparr>rest := cs, cursor := cursor s + char_len_utf8 c\<rparr>)"
  by (simp add: eat_until.simps [of pat a s] eat_def)

text \<open>The text that \<open>eat_until\<close> leaves is a suffix of what it was given.\<close>

lemma eat_until_suffix:
  "\<exists>p. rest s = p @ rest (snd (eat_until pat a s)) \<and>
       cursor (snd (eat_until pat a s)) = cursor s + str_len p"
proof (induction pat a s rule: eat_until.induct)
  case (1 pat a s)
  show ?case
  proof (cases "rest s")
    case Nil
    then show ?thesis by (simp add: eat_until_Nil)
  next
    case (Cons c cs)
    obtain a' stop where pat: "pat a c = (a', stop)" by (cases "pat a c")
    show ?thesis
    proof (cases stop)
      case True
      with Cons pat show ?thesis by (simp add: eat_until_stop)
    next
      case False
      let ?s' = "s\<lparr>rest := cs, cursor := cursor s + char_len_utf8 c\<rparr>"
      from Cons have eat: "snd (eat s) = ?s'" by (simp add: eat_def)
      from "1.IH" [of a' False] Cons pat False eat
      obtain p where "cs = p @ rest (snd (eat_until pat a' ?s'))"
        and "cursor (snd (eat_until pat a' ?s')) = cursor s + char_len_utf8 c + str_len p"
        by auto
      with Cons pat False show ?thesis
        by (intro exI [of _ "c # p"]) (simp add: eat_until_go)
    qed
  qed
qed

lemma length_rest_eat_until: "length (rest (snd (eat_until pat a s))) \<le> length (rest s)"
  using eat_until_suffix [of s pat a] by (metis le_add2 length_append)

end
