(* ===== verification/Line_Index.thy ===== *)
theory Line_Index
  imports Scanner
begin

text \<open>
  The position index of \<^verbatim>\<open>source.rs\<close>: the record \<^verbatim>\<open>Line\<close> and the two functions that
  build the table, \<^verbatim>\<open>lines_from\<close> (an iterator over a scanner, here the closure body
  \<open>lines_from_next\<close> and the loop \<open>lines_from_iter\<close> that drains it) and \<^verbatim>\<open>lines\<close>.
  The reference definition \<open>line_starts\<close> states the splitting rule by recursion on
  the text; \<open>lines_from\<close> is proved equal to it, and the facts about the table (how it
  distributes over an append, that its offsets increase strictly, that every entry is
  the length of a prefix of the text) are proved on the reference definition.
\<close>

section \<open>The table and its construction\<close>

record line =
  byte_idx :: nat
  utf16_idx :: nat

text \<open>
  The pattern closure of \<^verbatim>\<open>lines_from\<close>: it adds the UTF-16 length of every
  character it is asked about to the captured counter and accepts the terminators.
\<close>

definition count_newline :: "nat \<Rightarrow> rchar \<Rightarrow> nat \<times> bool" where
  "count_newline utf16 c = (utf16 + char_len_utf16 c, is_newline c)"

text \<open>
  One call of the iterator's closure, on the captured scanner and counter: skip to the
  next terminator, stop at the end of the text, eat the terminator (both characters of
  \<^verbatim>\<open>\r\n\<close>, counting the second by hand) and report the line that starts there.
\<close>

definition lines_from_next :: "nat \<Rightarrow> scanner \<times> nat \<Rightarrow> line option \<times> (scanner \<times> nat)" where
  "lines_from_next byte_offset st =
     (case st of (s, utf16) \<Rightarrow>
        (case eat_until count_newline utf16 s of (utf16, s) \<Rightarrow>
           if scanner_done s then (None, (s, utf16))
           else (case eat s of (c, s) \<Rightarrow>
             (case (if c = Some CR then eat_if LF s else (False, s)) of (crlf, s) \<Rightarrow>
                (let utf16 = (if crlf then utf16 + 1 else utf16)
                 in (Some \<lparr>byte_idx = byte_offset + cursor s, utf16_idx = utf16\<rparr>,
                     (s, utf16)))))))"

lemma lines_from_next_shrinks:
  assumes "lines_from_next byte_offset st = (Some l, st')"
  shows "length (rest (fst st')) < length (rest (fst st))"
proof -
  obtain s u where st: "st = (s, u)" by (cases st)
  obtain u1 s1 where eu: "eat_until count_newline u s = (u1, s1)"
    by (cases "eat_until count_newline u s")
  from assms st eu have nd: "\<not> scanner_done s1"
    by (auto simp: lines_from_next_def split: if_splits)
  obtain c s2 where e: "eat s1 = (c, s2)" by (cases "eat s1")
  obtain crlf s3 where ei: "(if c = Some CR then eat_if LF s2 else (False, s2)) = (crlf, s3)"
    by (cases "if c = Some CR then eat_if LF s2 else (False, s2)")
  from assms st eu nd e ei have st': "fst st' = s3"
    by (auto simp: lines_from_next_def Let_def simp del: scanner_done_iff)
  have "length (rest s3) \<le> length (rest s2)"
    using ei length_rest_eat_if [of LF s2] by (auto split: if_splits)
  also have "\<dots> < length (rest s1)"
    using length_rest_eat_less [OF nd] e by simp
  also have "\<dots> \<le> length (rest s)"
    using length_rest_eat_until [of count_newline u s] eu by simp
  finally show ?thesis using st st' by simp
qed

text \<open>Draining the iterator, as \<^verbatim>\<open>collect\<close> and \<^verbatim>\<open>extend\<close> do: call it until it is exhausted.\<close>

function lines_from_iter :: "nat \<Rightarrow> scanner \<times> nat \<Rightarrow> line list" where
  "lines_from_iter byte_offset st =
     (case lines_from_next byte_offset st of
        (None, _) \<Rightarrow> []
      | (Some l, st') \<Rightarrow> l # lines_from_iter byte_offset st')"
  by pat_completeness auto
termination
  by (relation "measure (\<lambda>(byte_offset, st). length (rest (fst st)))")
    (auto dest: lines_from_next_shrinks [OF sym])

declare lines_from_iter.simps [simp del]

definition lines_from :: "nat \<Rightarrow> nat \<Rightarrow> rstr \<Rightarrow> line list" where
  "lines_from byte_offset utf16_offset text =
     lines_from_iter byte_offset (scanner_new text, utf16_offset)"

definition lines :: "rstr \<Rightarrow> line list" where
  "lines text = \<lparr>byte_idx = 0, utf16_idx = 0\<rparr> # lines_from 0 0 text"

section \<open>The splitting rule\<close>

text \<open>
  The line starts of a text that begins at byte \<open>b\<close> and UTF-16 unit \<open>u\<close>: a line
  starts after \<^verbatim>\<open>\r\n\<close>, and after any other terminator.
\<close>

fun line_starts :: "nat \<Rightarrow> nat \<Rightarrow> rstr \<Rightarrow> line list" where
  "line_starts b u [] = []"
| "line_starts b u [c] =
     (if is_newline c then [\<lparr>byte_idx = b + char_len_utf8 c, utf16_idx = u + char_len_utf16 c\<rparr>] else [])"
| "line_starts b u (c # d # s) =
     (if c = CR \<and> d = LF
      then \<lparr>byte_idx = b + 2, utf16_idx = u + 2\<rparr> # line_starts (b + 2) (u + 2) s
      else if is_newline c
      then \<lparr>byte_idx = b + char_len_utf8 c, utf16_idx = u + char_len_utf16 c\<rparr>
             # line_starts (b + char_len_utf8 c) (u + char_len_utf16 c) (d # s)
      else line_starts (b + char_len_utf8 c) (u + char_len_utf16 c) (d # s))"

text \<open>
  The rule itself, on a split of the text into what precedes a position and what
  follows it: a line starts at the position when a terminator precedes it, unless that
  terminator is the \<^verbatim>\<open>\r\<close> of a \<^verbatim>\<open>\r\n\<close>. \<open>entry\<close> is the table entry of a prefix.
\<close>

definition line_break :: "rstr \<Rightarrow> rstr \<Rightarrow> bool" where
  "line_break p q \<longleftrightarrow> p \<noteq> [] \<and> is_newline (last p) \<and> \<not> (last p = CR \<and> starts_with q LF)"

definition entry :: "nat \<Rightarrow> nat \<Rightarrow> rstr \<Rightarrow> line" where
  "entry b u p = \<lparr>byte_idx = b + str_len p, utf16_idx = u + str_len_utf16 p\<rparr>"

lemma line_break_Cons [simp]: "p \<noteq> [] \<Longrightarrow> line_break (c # p) q \<longleftrightarrow> line_break p q"
  by (simp add: line_break_def)

lemma line_break_Nil [simp]: "\<not> line_break [] q"
  by (simp add: line_break_def)

lemma entry_Cons [simp]: "entry b u (c # p) = entry (b + char_len_utf8 c) (u + char_len_utf16 c) p"
  by (simp add: entry_def add.assoc)

lemma entry_sel [simp]:
  "byte_idx (entry b u p) = b + str_len p" "utf16_idx (entry b u p) = u + str_len_utf16 p"
  by (simp_all add: entry_def)

lemma entry_Nil: "entry b u [] = \<lparr>byte_idx = b, utf16_idx = u\<rparr>"
  by (simp add: entry_def)

section \<open>The scanner loop computes the splitting rule\<close>

text \<open>One equation of the loop per shape of the text after the cursor.\<close>

lemma lines_from_iter_Nil:
  "rest s = [] \<Longrightarrow> lines_from_iter off (s, u) = []"
  by (simp add: lines_from_iter.simps [of off "(s, u)"] lines_from_next_def eat_until_Nil)

lemma lines_from_next_skip:
  "rest s = c # cs \<Longrightarrow> \<not> is_newline c \<Longrightarrow>
   lines_from_next off (s, u) =
     lines_from_next off (s\<lparr>rest := cs, cursor := cursor s + char_len_utf8 c\<rparr>, u + char_len_utf16 c)"
  by (simp add: lines_from_next_def eat_until_go [where a' = "u + char_len_utf16 c"] count_newline_def)

lemma lines_from_iter_skip:
  "rest s = c # cs \<Longrightarrow> \<not> is_newline c \<Longrightarrow>
   lines_from_iter off (s, u) =
     lines_from_iter off (s\<lparr>rest := cs, cursor := cursor s + char_len_utf8 c\<rparr>, u + char_len_utf16 c)"
  by (subst (1 2) lines_from_iter.simps) (simp add: lines_from_next_skip)

lemma lines_from_iter_crlf:
  "rest s = CR # LF # cs \<Longrightarrow>
   lines_from_iter off (s, u) =
     \<lparr>byte_idx = off + cursor s + 2, utf16_idx = u + 2\<rparr>
       # lines_from_iter off (s\<lparr>rest := cs, cursor := cursor s + 2\<rparr>, u + 2)"
  by (subst lines_from_iter.simps)
    (simp add: lines_from_next_def eat_until_stop [where a' = "u + 1"] count_newline_def
      eat_simps(2) [where c = CR and cs = "LF # cs"] eat_if_simps(3) [where cs = cs])

lemma lines_from_iter_newline:
  "rest s = c # cs \<Longrightarrow> is_newline c \<Longrightarrow> \<not> (c = CR \<and> starts_with cs LF) \<Longrightarrow>
   lines_from_iter off (s, u) =
     \<lparr>byte_idx = off + cursor s + char_len_utf8 c, utf16_idx = u + char_len_utf16 c\<rparr>
       # lines_from_iter off (s\<lparr>rest := cs, cursor := cursor s + char_len_utf8 c\<rparr>, u + char_len_utf16 c)"
  by (subst lines_from_iter.simps)
    (auto simp: lines_from_next_def eat_until_stop [where a' = "u + char_len_utf16 c"]
      count_newline_def eat_simps(2) [where c = c and cs = cs] eat_if_def Let_def)

lemmas lines_from_iter_eqs =
  lines_from_iter_Nil lines_from_iter_skip lines_from_iter_crlf lines_from_iter_newline

lemma lines_from_iter_eq:
  "lines_from_iter off (\<lparr>rest = s, cursor = n\<rparr>, u) = line_starts (off + n) u s"
proof (induction "off + n" u s arbitrary: n rule: line_starts.induct)
  case (1 u)
  show ?case by (simp add: lines_from_iter_Nil)
next
  case (2 u c)
  show ?case
    by (cases "is_newline c") (simp_all add: lines_from_iter_eqs)
next
  case (3 u c d s)
  show ?case
  proof (cases "c = CR \<and> d = LF")
    case True
    with 3(1) [of "n + 2"] show ?thesis by (simp add: lines_from_iter_crlf add.assoc)
  next
    case False
    show ?thesis
    proof (cases "is_newline c")
      case True
      with False 3(2) [of "n + char_len_utf8 c"] show ?thesis
        by (auto simp: lines_from_iter_newline add.assoc)
    next
      case nl: False
      with False 3(3) [of "n + char_len_utf8 c"] show ?thesis
        by (auto simp: lines_from_iter_skip add.assoc)
    qed
  qed
qed

lemma lines_from_eq: "lines_from b u s = line_starts b u s"
  using lines_from_iter_eq [of b s 0 u] by (simp add: lines_from_def scanner_new_def)

lemma lines_eq: "lines s = entry 0 0 [] # line_starts 0 0 s"
  by (simp add: lines_def lines_from_eq entry_def)

section \<open>The splitting rule, one character at a time\<close>

lemma line_starts_Cons:
  "line_starts b u (c # s) =
     (if line_break [c] s then [entry b u [c]] else [])
       @ line_starts (b + char_len_utf8 c) (u + char_len_utf16 c) s"
proof (cases s)
  case Nil
  then show ?thesis by (simp add: line_break_def entry_def)
next
  case (Cons d t)
  then show ?thesis
    by (cases t) (auto simp: line_break_def entry_def)
qed

lemmas line_starts_simps = line_starts.simps(1) line_starts_Cons

declare line_starts.simps [simp del]
declare line_starts_simps [simp]

lemma line_starts_append:
  "\<not> (ends_with p CR \<and> starts_with q LF) \<Longrightarrow>
   line_starts b u (p @ q) =
     line_starts b u p @ line_starts (b + str_len p) (u + str_len_utf16 p) q"
proof (induction p arbitrary: b u)
  case Nil
  show ?case by simp
next
  case (Cons c p)
  show ?case
  proof (cases "p = []")
    case True
    with Cons.prems show ?thesis by (auto simp: line_break_def ends_with_def)
  next
    case False
    with Cons.prems have "\<not> (ends_with p CR \<and> starts_with q LF)" by (simp add: ends_with_def)
    from Cons.IH [OF this] False show ?thesis
      by (auto simp: line_break_def add.assoc starts_with_def)
  qed
qed

lemma line_starts_snoc_CR:
  "line_starts b u (p @ [CR]) = line_starts b u p @ [entry b u (p @ [CR])]"
  by (subst line_starts_append) (simp_all add: line_break_def entry_def)

text \<open>
  Where the cut separates a \<^verbatim>\<open>\r\<close> from a \<^verbatim>\<open>\n\<close>, the table of the whole lacks the
  last entry of the table of the first part: the line start after the \<^verbatim>\<open>\r\<close>.
\<close>

lemma line_starts_append_crlf:
  assumes "ends_with p CR" and "starts_with q LF"
  shows "line_starts b u (p @ q) =
           butlast (line_starts b u p) @ line_starts (b + str_len p) (u + str_len_utf16 p) q"
proof -
  from assms obtain p' q' where p: "p = p' @ [CR]" and q: "q = LF # q'"
    by (auto simp: ends_with_iff starts_with_def neq_Nil_conv)
  have "line_starts b u (p' @ CR # LF # q') =
      line_starts b u p' @ line_starts (b + str_len p') (u + str_len_utf16 p') (CR # LF # q')"
    by (rule line_starts_append) simp
  then show ?thesis
    unfolding p q by (simp add: line_starts_snoc_CR line_break_def add.assoc)
qed

section \<open>Offsets of the table\<close>

lemma line_starts_bounds:
  "l \<in> set (line_starts b u s) \<Longrightarrow>
   b < byte_idx l \<and> byte_idx l \<le> b + str_len s \<and>
   u < utf16_idx l \<and> utf16_idx l \<le> u + str_len_utf16 s"
  by (induction s arbitrary: b u) (fastforce split: if_splits)+

lemma sorted_line_starts_byte: "sorted_wrt (<) (map byte_idx (line_starts b u s))"
proof (induction s arbitrary: b u)
  case Nil
  show ?case by simp
next
  case (Cons c s)
  have "\<forall>l \<in> set (line_starts (b + char_len_utf8 c) (u + char_len_utf16 c) s). b + char_len_utf8 c < byte_idx l"
    using line_starts_bounds by blast
  with Cons show ?case by (auto simp: sorted_wrt_append)
qed

lemma sorted_line_starts_utf16: "sorted_wrt (<) (map utf16_idx (line_starts b u s))"
proof (induction s arbitrary: b u)
  case Nil
  show ?case by simp
next
  case (Cons c s)
  have "\<forall>l \<in> set (line_starts (b + char_len_utf8 c) (u + char_len_utf16 c) s). u + char_len_utf16 c < utf16_idx l"
    using line_starts_bounds by blast
  with Cons show ?case by (auto simp: sorted_wrt_append)
qed

text \<open>The entries of the table are exactly the prefixes of the text that end a line.\<close>

lemma in_line_starts_iff:
  "l \<in> set (line_starts b u s) \<longleftrightarrow> (\<exists>p q. s = p @ q \<and> line_break p q \<and> l = entry b u p)"
proof (induction s arbitrary: b u)
  case Nil
  show ?case by simp
next
  case (Cons c s)
  have "(\<exists>p q. c # s = p @ q \<and> line_break p q \<and> l = entry b u p) \<longleftrightarrow>
        (line_break [c] s \<and> l = entry b u [c]) \<or>
        (\<exists>p q. s = p @ q \<and> line_break p q \<and> l = entry (b + char_len_utf8 c) (u + char_len_utf16 c) p)"
    (is "?L \<longleftrightarrow> ?A \<or> ?B")
  proof
    assume ?L
    then obtain p q where pq: "c # s = p @ q" "line_break p q" "l = entry b u p" by blast
    then have "p \<noteq> []" by auto
    with pq(1) obtain p' where p: "p = c # p'" "s = p' @ q" by (cases p) auto
    show "?A \<or> ?B"
    proof (cases "p' = []")
      case True
      with p pq show ?thesis by simp
    next
      case False
      with p pq show ?thesis by auto
    qed
  next
    assume "?A \<or> ?B"
    then show ?L
    proof
      assume ?A
      then show ?L by (intro exI [of _ "[c]"] exI [of _ s]) simp
    next
      assume ?B
      then obtain p q where "s = p @ q" "line_break p q"
        "l = entry (b + char_len_utf8 c) (u + char_len_utf16 c) p"
        by blast
      moreover from this have "p \<noteq> []" by auto
      ultimately show ?L by (intro exI [of _ "c # p"] exI [of _ q]) simp
    qed
  qed
  with Cons show ?case by auto
qed

section \<open>The table of a whole text\<close>

lemma lines_ne [simp]: "lines s \<noteq> []"
  by (simp add: lines_eq)

lemma hd_lines [simp]: "hd (lines s) = \<lparr>byte_idx = 0, utf16_idx = 0\<rparr>"
  by (simp add: lines_eq entry_Nil)

lemma sorted_lines_byte: "sorted_wrt (<) (map byte_idx (lines s))"
  using line_starts_bounds [of _ 0 0 s] by (auto simp: lines_eq sorted_line_starts_byte)

lemma sorted_lines_utf16: "sorted_wrt (<) (map utf16_idx (lines s))"
  using line_starts_bounds [of _ 0 0 s] by (auto simp: lines_eq sorted_line_starts_utf16)

lemma in_lines_iff:
  "l \<in> set (lines s) \<longleftrightarrow> (\<exists>p q. s = p @ q \<and> (p = [] \<or> line_break p q) \<and> l = entry 0 0 p)"
  by (auto simp: lines_eq in_line_starts_iff)

lemma in_lines_prefix:
  "l \<in> set (lines s) \<Longrightarrow> \<exists>p q. s = p @ q \<and> l = entry 0 0 p"
  by (auto simp: in_lines_iff)

lemma last_lines_prefix:
  obtains p q where "s = p @ q" and "last (lines s) = entry 0 0 p"
  using in_lines_prefix [of "last (lines s)" s] by (metis last_in_set lines_ne)

section \<open>The table up to a position\<close>

text \<open>
  The entries of the table of \<open>p @ q\<close> that lie at or before the end of \<open>p\<close>: the
  table of \<open>p\<close>, without its last entry when the cut separates \<^verbatim>\<open>\r\<close> from \<^verbatim>\<open>\n\<close>.
\<close>

definition lines_upto :: "rstr \<Rightarrow> rstr \<Rightarrow> line list" where
  "lines_upto p q = (if ends_with p CR \<and> starts_with q LF then butlast (lines p) else lines p)"

lemma line_starts_ends_CR: "ends_with p CR \<Longrightarrow> line_starts b u p \<noteq> []"
  by (auto simp: ends_with_iff line_starts_snoc_CR)

lemma length_lines_ends_CR: "ends_with p CR \<Longrightarrow> 2 \<le> length (lines p)"
  using line_starts_ends_CR [of p 0 0] by (cases "line_starts 0 0 p") (simp_all add: lines_eq)

lemma lines_append_upto:
  "lines (p @ q) = lines_upto p q @ line_starts (str_len p) (str_len_utf16 p) q"
proof (cases "ends_with p CR \<and> starts_with q LF")
  case True
  then show ?thesis
    using line_starts_append_crlf [of p q 0 0] line_starts_ends_CR [of p 0 0]
    by (simp add: lines_eq lines_upto_def)
next
  case False
  then show ?thesis
    using line_starts_append [of p q 0 0] by (auto simp: lines_eq lines_upto_def)
qed

lemma lines_upto_le: "l \<in> set (lines_upto p q) \<Longrightarrow> byte_idx l \<le> str_len p"
  using line_starts_bounds [of l 0 0 p]
  by (auto simp: lines_upto_def lines_eq entry_Nil dest: in_set_butlastD split: if_splits)

section \<open>The table by positions\<close>

text \<open>
  The splitting rule read off the text: the table lists, in order, the prefixes of the
  text after which a line breaks.
\<close>

lemma upt_Suc_shift: "[Suc 0..<Suc (Suc n)] = Suc 0 # map Suc [Suc 0..<Suc n]"
  by (simp add: upt_conv_Cons map_Suc_upt del: upt_Suc)

lemma line_starts_positions:
  "line_starts b u s =
     map (\<lambda>n. entry b u (take n s))
       (filter (\<lambda>n. line_break (take n s) (drop n s)) [1..<Suc (length s)])"
proof (induction s arbitrary: b u)
  case Nil
  show ?case by simp
next
  case (Cons c s)
  have "[n \<leftarrow> [Suc 0..<Suc (length s)]. line_break (c # take n s) (drop n s)]
      = [n \<leftarrow> [Suc 0..<Suc (length s)]. line_break (take n s) (drop n s)]"
  proof (rule filter_cong [OF refl])
    fix n assume "n \<in> set [Suc 0..<Suc (length s)]"
    then have "take n s \<noteq> []" by auto
    then show "line_break (c # take n s) (drop n s) = line_break (take n s) (drop n s)" by simp
  qed
  with Cons show ?case
    by (simp add: upt_Suc_shift filter_map comp_def del: upt_Suc)
qed

text \<open>
  The number of \<^verbatim>\<open>\r\<close> that a \<^verbatim>\<open>\n\<close> follows: the terminators of two characters.
\<close>

fun crlf_pairs :: "rstr \<Rightarrow> nat" where
  "crlf_pairs (c # d # s) =
     (if c = CR \<and> d = LF then Suc (crlf_pairs (d # s)) else crlf_pairs (d # s))"
| "crlf_pairs s = 0"

lemma crlf_pairs_Cons:
  "crlf_pairs (c # s) = (if c = CR \<and> starts_with s LF then Suc (crlf_pairs s) else crlf_pairs s)"
  by (cases s) (simp_all add: starts_with_def)

lemma length_line_starts:
  "length (line_starts b u s) + crlf_pairs s = length (filter is_newline s)"
  by (induction s arbitrary: b u) (auto simp: crlf_pairs_Cons line_break_def)

lemma length_line_starts_le: "length (line_starts b u s) \<le> length s"
  by (induction s arbitrary: b u) (auto simp: le_SucI)

lemma utf16_le_byte_line_starts:
  "l \<in> set (line_starts b u s) \<Longrightarrow> u \<le> b \<Longrightarrow> utf16_idx l \<le> byte_idx l"
  using str_len_utf16_le_str_len by (fastforce simp: in_line_starts_iff intro: add_mono)

section \<open>What the pattern closure does to the scanner\<close>

lemma eat_until_count_newline_eq:
  "rest s = t \<Longrightarrow>
   eat_until count_newline u s =
     (u + str_len_utf16 (takeWhile (\<lambda>c. \<not> is_newline c) t)
        + str_len_utf16 (take 1 (dropWhile (\<lambda>c. \<not> is_newline c) t)),
      s\<lparr>rest := dropWhile (\<lambda>c. \<not> is_newline c) t,
        cursor := cursor s + str_len (takeWhile (\<lambda>c. \<not> is_newline c) t)\<rparr>)"
proof (induction t arbitrary: s u)
  case Nil
  then show ?case by (simp add: eat_until_Nil)
next
  case (Cons c t)
  show ?case
  proof (cases "is_newline c")
    case True
    with Cons.prems show ?thesis
      by (simp add: eat_until_stop [where a' = "u + char_len_utf16 c"] count_newline_def)
  next
    case False
    let ?s' = "s\<lparr>rest := t, cursor := cursor s + char_len_utf8 c\<rparr>"
    have "rest ?s' = t" by simp
    from Cons.IH [OF this, of "u + char_len_utf16 c"] Cons.prems False show ?thesis
      by (simp add: eat_until_go [where a' = "u + char_len_utf16 c"] count_newline_def add.assoc)
  qed
qed

section \<open>Evaluation\<close>

text \<open>The rules that compute the table of a concrete text.\<close>

lemmas eval_lines =
  lines_eq lines_from_eq entry_def line_break_def is_newline_def char_len_utf8_def
  char_len_utf16_def ends_with_def starts_with_def

section \<open>Properties of the table\<close>

text \<open>
  C3. The scanner loop of \<^verbatim>\<open>lines_from\<close> computes the splitting rule: started at
  byte offset \<open>b\<close> and UTF-16 offset \<open>u\<close>, it yields, in order, one record for every
  position of the text that follows a \<^verbatim>\<open>\n\<close>, a \<^verbatim>\<open>\r\<close> that no \<^verbatim>\<open>\n\<close> follows, or a
  \<^verbatim>\<open>\r\n\<close>, and the record holds the byte length and the UTF-16 length of the text
  before that position, added to the offsets.
\<close>

theorem lines_from_splitting_rule:
  "lines_from b u s =
     map (\<lambda>n. entry b u (take n s))
       (filter (\<lambda>n. line_break (take n s) (drop n s)) [1..<Suc (length s)])"
  by (simp only: lines_from_eq line_starts_positions)

text \<open>
  C6. The table of every text starts with the record of offset zero, its byte offsets
  and its UTF-16 offsets increase strictly, every record lies on a character boundary
  within the text, its UTF-16 offset is at most its byte offset, and the table has at
  most one record more than the text has characters.
\<close>

theorem lines_table_invariant:
  "hd (lines s) = \<lparr>byte_idx = 0, utf16_idx = 0\<rparr>
   \<and> sorted_wrt (<) (map byte_idx (lines s))
   \<and> sorted_wrt (<) (map utf16_idx (lines s))
   \<and> (\<forall>l \<in> set (lines s). is_char_boundary s (byte_idx l) \<and> byte_idx l \<le> str_len s
        \<and> utf16_idx l \<le> str_len_utf16 s \<and> utf16_idx l \<le> byte_idx l)
   \<and> length (lines s) \<le> Suc (length s)"
proof -
  have "is_char_boundary s (byte_idx l) \<and> byte_idx l \<le> str_len s
      \<and> utf16_idx l \<le> str_len_utf16 s \<and> utf16_idx l \<le> byte_idx l"
    if "l \<in> set (lines s)" for l
  proof -
    from that obtain p q where "s = p @ q" "l = entry 0 0 p"
      using in_lines_prefix by blast
    then show ?thesis by (simp add: str_len_utf16_le_str_len)
  qed
  moreover have "length (lines s) \<le> Suc (length s)"
    by (simp add: lines_eq length_line_starts_le)
  ultimately show ?thesis
    by (simp add: sorted_lines_byte sorted_lines_utf16)
qed

theorem lines_table_invariant_witness:
  "lines [97, CR, LF, 0x1F49B, LF] =
     [\<lparr>byte_idx = 0, utf16_idx = 0\<rparr>, \<lparr>byte_idx = 3, utf16_idx = 3\<rparr>, \<lparr>byte_idx = 8, utf16_idx = 6\<rparr>]
   \<and> hd (lines [97, CR, LF, 0x1F49B, LF]) = \<lparr>byte_idx = 0, utf16_idx = 0\<rparr>
   \<and> sorted_wrt (<) (map byte_idx (lines [97, CR, LF, 0x1F49B, LF]))
   \<and> sorted_wrt (<) (map utf16_idx (lines [97, CR, LF, 0x1F49B, LF]))
   \<and> list_all (\<lambda>l. is_char_boundary [97, CR, LF, 0x1F49B, LF] (byte_idx l)
        \<and> byte_idx l \<le> str_len [97, CR, LF, 0x1F49B, LF]
        \<and> utf16_idx l \<le> str_len_utf16 [97, CR, LF, 0x1F49B, LF] \<and> utf16_idx l \<le> byte_idx l)
       (lines [97, CR, LF, 0x1F49B, LF])
   \<and> length (lines [97, CR, LF, 0x1F49B, LF]) \<le> Suc (length [97, CR, LF, 0x1F49B, LF])"
proof -
  have "lines [97, CR, LF, 0x1F49B, LF] =
     [\<lparr>byte_idx = 0, utf16_idx = 0\<rparr>, \<lparr>byte_idx = 3, utf16_idx = 3\<rparr>, \<lparr>byte_idx = 8, utf16_idx = 6\<rparr>]"
    by (simp add: eval_lines)
  moreover note lines_table_invariant [of "[97, CR, LF, 0x1F49B, LF]"]
  ultimately show ?thesis unfolding list_all_iff by blast
qed

text \<open>
  The number of records is one more than the number of terminator characters of
  the text, less the number of \<^verbatim>\<open>\r\n\<close> pairs: a text without a terminator has one
  line, and \<^verbatim>\<open>\r\n\<close> counts once.
\<close>

theorem length_lines_count:
  "length (lines s) + crlf_pairs s = Suc (length (filter is_newline s))"
  by (simp add: lines_eq length_line_starts)

text \<open>
  C26. A line starts after every \<^verbatim>\<open>\n\<close>; after a \<^verbatim>\<open>\r\<close> exactly when no \<^verbatim>\<open>\n\<close>
  follows it; and after \<^verbatim>\<open>\r\n\<close>, so that \<^verbatim>\<open>\r\n\<close> is one terminator and never two.
\<close>

theorem line_terminators:
  "entry 0 0 (p @ [LF]) \<in> set (lines (p @ LF # q))
   \<and> (entry 0 0 (p @ [CR]) \<in> set (lines (p @ CR # q)) \<longleftrightarrow> \<not> starts_with q LF)
   \<and> str_len p + 1 \<notin> byte_idx ` set (lines (p @ CR # LF # q))
   \<and> entry 0 0 (p @ [CR, LF]) \<in> set (lines (p @ CR # LF # q))"
proof -
  have 1: "entry 0 0 (p @ [LF]) \<in> set (lines ((p @ [LF]) @ q))"
    unfolding in_lines_iff
    by (intro exI [of _ "p @ [LF]"] exI [of _ q]) (simp add: line_break_def)
  have 2: "entry 0 0 (p @ [CR, LF]) \<in> set (lines ((p @ [CR, LF]) @ q))"
    unfolding in_lines_iff
    by (intro exI [of _ "p @ [CR, LF]"] exI [of _ q]) (simp add: line_break_def)
  have split: "p' = p @ [CR] \<and> q' = q"
    if "p @ CR # q = p' @ q'" "str_len p' = str_len p + 1" for p' q' q
    using prefix_str_len_unique [of "p @ [CR]" q p' q'] that by simp
  have 3: "entry 0 0 (p @ [CR]) \<in> set (lines (p @ CR # q)) \<longleftrightarrow> \<not> starts_with q LF"
  proof
    assume "entry 0 0 (p @ [CR]) \<in> set (lines (p @ CR # q))"
    then obtain p' q' where pq: "p @ CR # q = p' @ q'" "p' = [] \<or> line_break p' q'"
      "entry 0 0 (p @ [CR]) = entry 0 0 p'"
      unfolding in_lines_iff by blast
    from pq(3) have "str_len p' = str_len p + 1" by (simp add: entry_def)
    with split [OF pq(1)] pq(2) show "\<not> starts_with q LF" by (auto simp: line_break_def)
  next
    assume "\<not> starts_with q LF"
    then have "line_break (p @ [CR]) q" by (simp add: line_break_def)
    then show "entry 0 0 (p @ [CR]) \<in> set (lines (p @ CR # q))"
      unfolding in_lines_iff by (intro exI [of _ "p @ [CR]"] exI [of _ q]) simp
  qed
  have 4: "str_len p + 1 \<notin> byte_idx ` set (lines (p @ CR # LF # q))"
  proof
    assume "str_len p + 1 \<in> byte_idx ` set (lines (p @ CR # LF # q))"
    then obtain l where "l \<in> set (lines (p @ CR # LF # q))" "byte_idx l = str_len p + 1"
      by auto
    then obtain p' q' where pq: "p @ CR # LF # q = p' @ q'" "p' = [] \<or> line_break p' q'"
      "str_len p' = str_len p + 1"
      unfolding in_lines_iff by auto
    with split [OF pq(1) pq(3)] show False by (auto simp: line_break_def)
  qed
  from 1 2 3 4 show ?thesis by simp
qed

text \<open>
  The scan can be resumed: the table of a text cut in two is the table of the
  first part, without its last record when the cut separates a \<^verbatim>\<open>\r\<close> from a \<^verbatim>\<open>\n\<close>,
  followed by what \<^verbatim>\<open>lines_from\<close> yields on the second part from the offsets of the
  cut.
\<close>

theorem lines_from_resumes:
  "lines (p @ q) =
     (if ends_with p CR \<and> starts_with q LF then butlast (lines p) else lines p)
       @ lines_from (str_len p) (str_len_utf16 p) q"
  by (simp only: lines_append_upto lines_upto_def lines_from_eq)

text \<open>
  One call of the iterator of \<^verbatim>\<open>lines_from\<close>: when no terminator is left it
  consumes the rest of the text and yields nothing; otherwise it consumes the text up
  to and including the next terminator (both characters of \<^verbatim>\<open>\r\n\<close>) and yields the
  record of the position after it, with the UTF-16 counter advanced by everything
  consumed.
\<close>

theorem lines_from_next_step:
  "lines_from_next off (s, u) =
     (let run = takeWhile (\<lambda>c. \<not> is_newline c) (rest s) in
      case dropWhile (\<lambda>c. \<not> is_newline c) (rest s) of
        [] \<Rightarrow> (None, (s\<lparr>rest := [], cursor := cursor s + str_len run\<rparr>, u + str_len_utf16 run))
      | c # cs \<Rightarrow>
          (let n = (if c = CR \<and> starts_with cs LF then 2 else 1);
               s' = s\<lparr>rest := drop (n - 1) cs, cursor := cursor s + str_len run + n\<rparr>
           in (Some \<lparr>byte_idx = off + cursor s', utf16_idx = u + str_len_utf16 run + n\<rparr>,
               (s', u + str_len_utf16 run + n))))"
proof -
  define run where "run = takeWhile (\<lambda>c. \<not> is_newline c) (rest s)"
  define stop where "stop = dropWhile (\<lambda>c. \<not> is_newline c) (rest s)"
  have eu: "eat_until count_newline u s =
      (u + str_len_utf16 run + str_len_utf16 (take 1 stop),
       s\<lparr>rest := stop, cursor := cursor s + str_len run\<rparr>)"
    unfolding run_def stop_def by (rule eat_until_count_newline_eq [OF refl])
  have nl: "is_newline (hd stop)" if "stop \<noteq> []"
    using that hd_dropWhile [of "\<lambda>c. \<not> is_newline c" "rest s"] by (simp add: stop_def)
  show ?thesis
    unfolding run_def [symmetric] stop_def [symmetric] using nl
    by (cases stop)
      (auto simp: lines_from_next_def eu Let_def eat_def eat_if_def starts_with_def is_newline_def drop_Suc)
qed

end
