(* ===== verification/Binary_Search.thy ===== *)
theory Binary_Search
  imports Source_Prelude
begin

text \<open>
  The binary search that the position queries run over the line table
  (\<^verbatim>\<open>slice::binary_search_by_key\<close>): the loop of the standard library as a recursive
  function on the list of keys, its termination, and its contract on a strictly
  increasing list. The queries turn the answer into the index of the last key that
  is at most the target; \<open>search_rank\<close> states that use, and \<open>rank\<close> is its
  specification by counting.
\<close>

section \<open>The search\<close>

text \<open>\<^verbatim>\<open>Result<usize, usize>\<close>: the index of the key, or the index where it would be inserted.\<close>

datatype found = Ok nat | Err nat

text \<open>
  The loop keeps \<open>left \<le> right \<le> length ks\<close>, every key before \<open>left\<close> less than the
  target and every key from \<open>right\<close> on greater. The variable \<^verbatim>\<open>size\<close> of the code is
  \<open>right - left\<close> throughout.
\<close>

function binary_search_loop :: "nat list \<Rightarrow> nat \<Rightarrow> nat \<Rightarrow> nat \<Rightarrow> found" where
  "binary_search_loop ks b left right =
     (if left < right then
        (let mid = left + (right - left) div 2 in
         if ks ! mid < b then binary_search_loop ks b (mid + 1) right
         else if b < ks ! mid then binary_search_loop ks b left mid
         else Ok mid)
      else Err left)"
  by pat_completeness auto
termination
  by (relation "measure (\<lambda>(ks, b, left, right). right - left)") auto

declare binary_search_loop.simps [simp del]

definition binary_search_by_key :: "'a list \<Rightarrow> nat \<Rightarrow> ('a \<Rightarrow> nat) \<Rightarrow> found" where
  "binary_search_by_key xs b key = binary_search_loop (map key xs) b 0 (length xs)"

text \<open>The number of keys that are at most the target.\<close>

definition rank :: "nat list \<Rightarrow> nat \<Rightarrow> nat" where
  "rank ks b = length (filter (\<lambda>k. k \<le> b) ks)"

text \<open>
  What the queries make of the answer: \<^verbatim>\<open>Ok(i) => i, Err(i) => i - 1\<close>, where the
  subtraction panics at zero.
\<close>

definition search_rank :: "found \<Rightarrow> nat result" where
  "search_rank r = (case r of Ok i \<Rightarrow> Inr i | Err i \<Rightarrow> pred_usize i)"

section \<open>The contract of the loop\<close>

definition below :: "nat list \<Rightarrow> nat \<Rightarrow> nat \<Rightarrow> bool" where
  "below ks b i \<longleftrightarrow> (\<forall>j<i. j < length ks \<longrightarrow> ks ! j < b)"

definition above :: "nat list \<Rightarrow> nat \<Rightarrow> nat \<Rightarrow> bool" where
  "above ks b i \<longleftrightarrow> (\<forall>j\<ge>i. j < length ks \<longrightarrow> b < ks ! j)"

lemma below_mono:
  assumes "sorted_wrt (<) ks" and "ks ! m < b" and "m < length ks"
  shows "below ks b (Suc m)"
  unfolding below_def
proof (intro allI impI)
  fix j assume "j < Suc m" "j < length ks"
  then have "ks ! j \<le> ks ! m"
    using assms(1,3) by (cases "j = m") (auto simp: sorted_wrt_iff_nth_less less_imp_le)
  with assms(2) show "ks ! j < b" by simp
qed

lemma above_mono:
  assumes "sorted_wrt (<) ks" and "b < ks ! m"
  shows "above ks b m"
  unfolding above_def
proof (intro allI impI)
  fix j assume "m \<le> j" "j < length ks"
  then have "ks ! m \<le> ks ! j"
    using assms(1) by (cases "j = m") (auto simp: sorted_wrt_iff_nth_less less_imp_le)
  with assms(2) show "b < ks ! j" by simp
qed

lemma binary_search_loop_Ok:
  "binary_search_loop ks b left right = Ok i \<Longrightarrow> right \<le> length ks \<Longrightarrow>
   left \<le> i \<and> i < right \<and> ks ! i = b"
proof (induction ks b left right rule: binary_search_loop.induct)
  case (1 ks b left right)
  let ?mid = "left + (right - left) div 2"
  from "1.prems"(1) have lt: "left < right"
    by (auto simp: binary_search_loop.simps [of ks b left right] split: if_splits)
  then have mid: "left \<le> ?mid" "?mid < right" by auto
  consider "ks ! ?mid < b" | "b < ks ! ?mid" | "ks ! ?mid = b" by linarith
  then show ?case
  proof cases
    case 1
    with lt "1.prems" have "binary_search_loop ks b (?mid + 1) right = Ok i"
      by (simp add: binary_search_loop.simps [of ks b left right] Let_def)
    from "1.IH"(1) [OF lt refl 1 this "1.prems"(2)] mid show ?thesis by simp
  next
    case 2
    with lt "1.prems" have r: "binary_search_loop ks b left ?mid = Ok i"
      by (simp add: binary_search_loop.simps [of ks b left right] Let_def)
    from 2 have "\<not> ks ! ?mid < b" by simp
    from "1.IH"(2) [OF lt refl this 2 r] mid "1.prems"(2) show ?thesis by simp
  next
    case 3
    with lt "1.prems" have "i = ?mid"
      by (simp add: binary_search_loop.simps [of ks b left right] Let_def)
    with 3 mid show ?thesis by simp
  qed
qed

lemma binary_search_loop_Err:
  "binary_search_loop ks b left right = Err i \<Longrightarrow> sorted_wrt (<) ks \<Longrightarrow>
   left \<le> right \<Longrightarrow> right \<le> length ks \<Longrightarrow> below ks b left \<Longrightarrow> above ks b right \<Longrightarrow>
   left \<le> i \<and> i \<le> right \<and> below ks b i \<and> above ks b i"
proof (induction ks b left right rule: binary_search_loop.induct)
  case (1 ks b left right)
  let ?mid = "left + (right - left) div 2"
  show ?case
  proof (cases "left < right")
    case False
    with "1.prems" show ?thesis
      by (simp add: binary_search_loop.simps [of ks b left right])
  next
    case lt: True
    then have mid: "left \<le> ?mid" "?mid < right" by auto
    with "1.prems" have len: "?mid < length ks" by simp
    consider "ks ! ?mid < b" | "b < ks ! ?mid" | "ks ! ?mid = b" by linarith
    then show ?thesis
    proof cases
      case 1
      with lt "1.prems"(1) have r: "binary_search_loop ks b (?mid + 1) right = Err i"
        by (simp add: binary_search_loop.simps [of ks b left right] Let_def)
      have "below ks b (?mid + 1)"
        using below_mono [OF "1.prems"(2) 1 len] by simp
      with "1.IH"(1) [OF lt refl 1 r "1.prems"(2)] mid "1.prems" show ?thesis by simp
    next
      case 2
      with lt "1.prems"(1) have r: "binary_search_loop ks b left ?mid = Err i"
        by (simp add: binary_search_loop.simps [of ks b left right] Let_def)
      from 2 have n: "\<not> ks ! ?mid < b" by simp
      have "above ks b ?mid" by (rule above_mono [OF "1.prems"(2) 2])
      with "1.IH"(2) [OF lt refl n 2 r "1.prems"(2)] mid "1.prems" show ?thesis by simp
    next
      case 3
      with lt "1.prems"(1) show ?thesis
        by (simp add: binary_search_loop.simps [of ks b left right] Let_def)
    qed
  qed
qed

section \<open>The answer as a rank\<close>

lemma filter_eq_take:
  assumes "n \<le> length xs" and "\<forall>j<n. P (xs ! j)" and "\<forall>j\<ge>n. j < length xs \<longrightarrow> \<not> P (xs ! j)"
  shows "filter P xs = take n xs"
proof -
  have "filter P (take n xs) = take n xs"
    using assms(1,2) by (auto simp: filter_id_conv in_set_conv_nth)
  moreover have "filter P (drop n xs) = []"
    using assms(1,3) by (auto simp: filter_empty_conv in_set_conv_nth)
  ultimately show ?thesis
    by (metis append_Nil2 append_take_drop_id filter_append)
qed

lemma rank_below_above:
  assumes "i \<le> length ks" and "below ks b i" and "above ks b i"
  shows "rank ks b = i"
proof -
  have "filter (\<lambda>k. k \<le> b) ks = take i ks"
    using assms by (intro filter_eq_take) (auto simp: below_def above_def less_imp_le)
  with assms(1) show ?thesis by (simp add: rank_def)
qed

lemma rank_at_key:
  assumes "sorted_wrt (<) ks" and "i < length ks" and "ks ! i = b"
  shows "rank ks b = Suc i"
proof -
  have "filter (\<lambda>k. k \<le> b) ks = take (Suc i) ks"
  proof (intro filter_eq_take allI impI)
    fix j assume "j < Suc i"
    with assms show "ks ! j \<le> b"
      by (cases "j = i") (auto simp: sorted_wrt_iff_nth_less less_imp_le)
  next
    fix j assume "Suc i \<le> j" "j < length ks"
    with assms(1) have "ks ! i < ks ! j" by (auto simp: sorted_wrt_iff_nth_less)
    with assms(3) show "\<not> ks ! j \<le> b" by simp
  qed (use assms in simp)
  with assms(2) show ?thesis by (simp add: rank_def)
qed

text \<open>
  On a strictly increasing list the search, read as the queries read it, is the index
  of the last key that is at most the target, and it panics when there is no such key.
\<close>

lemma search_rank_loop:
  assumes "sorted_wrt (<) ks"
  shows "search_rank (binary_search_loop ks b 0 (length ks)) = pred_usize (rank ks b)"
proof (cases "binary_search_loop ks b 0 (length ks)")
  case (Ok i)
  from binary_search_loop_Ok [OF Ok] have "i < length ks" "ks ! i = b" by simp_all
  with assms have "rank ks b = Suc i" by (rule rank_at_key)
  with Ok show ?thesis by (simp add: search_rank_def)
next
  case (Err i)
  from binary_search_loop_Err [OF Err assms]
  have "i \<le> length ks" "below ks b i" "above ks b i"
    by (simp_all add: below_def above_def)
  then have "rank ks b = i" by (rule rank_below_above)
  with Err show ?thesis by (simp add: search_rank_def)
qed

lemma search_rank_by_key:
  assumes "sorted_wrt (<) (map key xs)"
  shows "search_rank (binary_search_by_key xs b key) = pred_usize (rank (map key xs) b)"
  using search_rank_loop [OF assms, of b] by (simp add: binary_search_by_key_def)

lemma rank_map: "rank (map key xs) b = length (filter (\<lambda>x. key x \<le> b) xs)"
  by (simp add: rank_def length_filter_map comp_def)

lemma rank_le_length: "rank ks b \<le> length ks"
  by (simp add: rank_def)

lemma rank_Cons [simp]: "rank (k # ks) b = (if k \<le> b then Suc (rank ks b) else rank ks b)"
  by (simp add: rank_def)

lemma rank_Nil [simp]: "rank [] b = 0"
  by (simp add: rank_def)

lemma rank_append [simp]: "rank (ks @ ks') b = rank ks b + rank ks' b"
  by (simp add: rank_def)

text \<open>The keys around the rank: the last one that is at most the target, the first one above it.\<close>

lemma sorted_filter_le_take:
  assumes "sorted_wrt (<) ks"
  shows "filter (\<lambda>k. k \<le> b) ks = take (rank ks b) ks"
  using filter_le_sorted_take [of "\<lambda>k. k" ks b] assms by (simp add: rank_def)

lemma rank_nth_le:
  assumes "sorted_wrt (<) ks" and "0 < rank ks b"
  shows "ks ! (rank ks b - 1) \<le> b"
proof -
  have le: "rank ks b \<le> length ks" by (rule rank_le_length)
  with assms(2) have "ks ! (rank ks b - 1) = take (rank ks b) ks ! (rank ks b - 1)" by simp
  also have "\<dots> \<in> set (take (rank ks b) ks)"
    using assms(2) le by (intro nth_mem) simp
  finally have "ks ! (rank ks b - 1) \<in> set (filter (\<lambda>k. k \<le> b) ks)"
    by (simp add: sorted_filter_le_take [OF assms(1)])
  then show ?thesis by simp
qed

lemma rank_nth_gt:
  assumes "sorted_wrt (<) ks" and "rank ks b < length ks"
  shows "b < ks ! rank ks b"
proof (rule ccontr)
  assume "\<not> b < ks ! rank ks b"
  then have "ks ! rank ks b \<in> set (filter (\<lambda>k. k \<le> b) ks)"
    using assms(2) by simp
  then have "ks ! rank ks b \<in> set (take (rank ks b) ks)"
    by (simp add: sorted_filter_le_take [OF assms(1)])
  then obtain j where "j < rank ks b" "ks ! j = ks ! rank ks b"
    using assms(2) by (auto simp: in_set_conv_nth)
  with assms show False
    by (metis less_irrefl sorted_wrt_less_nth)
qed

section \<open>Properties of the search as the queries use it\<close>

text \<open>
  On a table with strictly increasing keys whose first key is at most the target,
  the search as the queries use it (\<^verbatim>\<open>Ok(i) => i, Err(i) => i - 1\<close>) does not panic and
  returns the index of the last key that is at most the target: the key at the index is
  at most the target, and the next key, if there is one, is greater.
\<close>

theorem search_rank_greatest:
  assumes "sorted_wrt (<) (map key xs)" and "xs \<noteq> []" and "key (hd xs) \<le> b"
  shows "\<exists>i. search_rank (binary_search_by_key xs b key) = Inr i \<and> i < length xs
    \<and> key (xs ! i) \<le> b \<and> (Suc i < length xs \<longrightarrow> b < key (xs ! Suc i))"
proof -
  let ?ks = "map key xs"
  from assms(2,3) have pos: "0 < rank ?ks b" by (cases xs) simp_all
  have le: "rank ?ks b \<le> length xs" using rank_le_length [of ?ks b] by simp
  from pos le have i: "rank ?ks b - 1 < length xs" by simp
  have "?ks ! (rank ?ks b - 1) \<le> b" using assms(1) pos by (rule rank_nth_le)
  with i have 1: "key (xs ! (rank ?ks b - 1)) \<le> b" by simp
  have 2: "b < key (xs ! Suc (rank ?ks b - 1))" if "Suc (rank ?ks b - 1) < length xs"
    using rank_nth_gt [OF assms(1), of b] that pos by simp
  from pos have "search_rank (binary_search_by_key xs b key) = Inr (rank ?ks b - 1)"
    by (simp add: search_rank_by_key [OF assms(1)])
  with i 1 2 show ?thesis by blast
qed

theorem search_rank_greatest_witness:
  "sorted_wrt (<) (map (\<lambda>k. k) [0, 7, 15, 18 :: nat]) \<and> [0, 7, 15, 18 :: nat] \<noteq> []
   \<and> hd [0, 7, 15, 18 :: nat] \<le> 12
   \<and> search_rank (binary_search_by_key [0, 7, 15, 18 :: nat] 12 (\<lambda>k. k)) = Inr 1
   \<and> (\<exists>i. search_rank (binary_search_by_key [0, 7, 15, 18 :: nat] 12 (\<lambda>k. k)) = Inr i
        \<and> i < length [0, 7, 15, 18 :: nat] \<and> [0, 7, 15, 18 :: nat] ! i \<le> 12
        \<and> 12 < [0, 7, 15, 18 :: nat] ! Suc i)"
proof -
  have s: "sorted_wrt (<) (map (\<lambda>k. k) [0, 7, 15, 18 :: nat])" by simp
  have v: "search_rank (binary_search_by_key [0, 7, 15, 18 :: nat] 12 (\<lambda>k. k)) = Inr 1"
    by (simp add: binary_search_by_key_def binary_search_loop.simps search_rank_def)
  from search_rank_greatest [OF s, of 12] v s show ?thesis by auto
qed

text \<open>
  On a table with strictly increasing keys, the subtraction in the \<^verbatim>\<open>Err\<close> branch
  of the search overflows exactly when every key of the table is greater than the
  target; an empty table is such a table.
\<close>

theorem search_rank_underflow:
  assumes "sorted_wrt (<) (map key xs)"
  shows "search_rank (binary_search_by_key xs b key) = Inl Sub_Overflow
    \<longleftrightarrow> list_all (\<lambda>x. b < key x) xs"
proof -
  have "rank (map key xs) b = 0 \<longleftrightarrow> list_all (\<lambda>x. b < key x) xs"
    by (auto simp: rank_map filter_empty_conv list_all_iff not_le)
  then show ?thesis
    by (auto simp: search_rank_by_key [OF assms] pred_usize_def)
qed

theorem search_rank_underflow_witness:
  "sorted_wrt (<) (map (\<lambda>k. k) [2, 3 :: nat])
   \<and> search_rank (binary_search_by_key [2, 3 :: nat] 0 (\<lambda>k. k)) = Inl Sub_Overflow
   \<and> list_all (\<lambda>x. 0 < x) [2, 3 :: nat]"
  using search_rank_underflow [of "\<lambda>k. k" "[2, 3 :: nat]" 0] by simp

end
