(* ===== verification/Source.thy ===== *)
theory Source
  imports Line_Index Binary_Search
begin

text \<open>
  The document snapshot of \<^verbatim>\<open>source.rs\<close>: the record \<^verbatim>\<open>Repr\<close> behind a \<^verbatim>\<open>Source\<close>
  and the read operations on it, in the order of the file. The syntax tree and what
  is done with it (parsing, numbering, reparsing, lookup) belong to other modules of
  the compiler; the model takes them as a record of operations, \<open>syntax_ops\<close>, over a
  type variable for the tree, so that the operations of \<^verbatim>\<open>Source\<close> that call them are
  whole. A position query returns an optional value or a panic.
\<close>

section \<open>The interface to the syntax tree\<close>

datatype file_id = Detached | File nat

type_synonym span = "file_id \<times> nat"
type_synonym byte_range = "nat \<times> nat"

text \<open>
  A span is the identity of a file with the number of a node in the tree of the file.
  \<open>parse\<close> is \<^verbatim>\<open>parse\<close>; \<open>numberize\<close> is \<^verbatim>\<open>SyntaxNode::numberize\<close> over the whole
  span range, \<open>None\<close> for its error; \<open>synthesize\<close> is \<^verbatim>\<open>SyntaxNode::synthesize\<close>;
  \<open>errors\<close> and \<open>cast\<close> are \<^verbatim>\<open>SyntaxNode::errors\<close> and the cast to the markup root;
  \<open>find_node\<close> is \<^verbatim>\<open>LinkedNode::new(root).find(span)\<close>; \<open>reparse\<close> is \<^verbatim>\<open>reparse\<close>,
  which updates the tree in place and returns the range it reparsed.
\<close>

record ('n, 'e, 'm, 'l) syntax_ops =
  parse :: "rstr \<Rightarrow> 'n"
  numberize :: "'n \<Rightarrow> file_id \<Rightarrow> 'n option"
  synthesize :: "'n \<Rightarrow> span \<Rightarrow> 'n"
  errors :: "'n \<Rightarrow> 'e list"
  cast :: "'n \<Rightarrow> 'm option"
  find_node :: "'n \<Rightarrow> span \<Rightarrow> 'l option"
  reparse :: "'n \<Rightarrow> rstr \<Rightarrow> byte_range \<Rightarrow> nat \<Rightarrow> 'n \<times> byte_range"

section \<open>The snapshot\<close>

record 'n repr =
  repr_id :: file_id
  repr_text :: rstr
  repr_root :: 'n
  repr_lines :: "line list"

text \<open>The accessors \<^verbatim>\<open>root\<close>, \<^verbatim>\<open>id\<close>, \<^verbatim>\<open>text\<close> and \<^verbatim>\<open>get\<close>.\<close>

definition root :: "'n repr \<Rightarrow> 'n" where
  "root s = repr_root s"

definition source_id :: "'n repr \<Rightarrow> file_id" where
  "source_id s = repr_id s"

definition source_text :: "'n repr \<Rightarrow> rstr" where
  "source_text s = repr_text s"

definition get :: "'n repr \<Rightarrow> byte_range \<Rightarrow> rstr option" where
  "get s r = str_get (source_text s) (fst r) (snd r)"

text \<open>\<^verbatim>\<open>ast\<close>: the typed root, or the errors of the tree; the cast is expected to succeed.\<close>

definition ast :: "('n, 'e, 'm, 'l) syntax_ops \<Rightarrow> 'n repr \<Rightarrow> ('e list + 'm) result" where
  "ast ops s =
     (let es = errors ops (root s) in
      if es = [] then
        (case cast ops (root s) of None \<Rightarrow> Inl Expect_Failed | Some m \<Rightarrow> Inr (Inr m))
      else Inr (Inl es))"

definition len_bytes :: "'n repr \<Rightarrow> nat" where
  "len_bytes s = str_len (source_text s)"

definition len_utf16 :: "'n repr \<Rightarrow> nat result" where
  "len_utf16 s =
     rbind (unwrap (last_opt (repr_lines s))) (\<lambda>l.
     rbind (str_from (repr_text s) (byte_idx l)) (\<lambda>tail.
     Inr (utf16_idx l + str_len_utf16 tail)))"

definition len_lines :: "'n repr \<Rightarrow> nat" where
  "len_lines s = length (repr_lines s)"

definition source_find :: "('n, 'e, 'm, 'l) syntax_ops \<Rightarrow> 'n repr \<Rightarrow> span \<Rightarrow> 'l option" where
  "source_find ops s sp = find_node ops (root s) sp"

text \<open>
  \<^verbatim>\<open>impl Hash\<close> feeds the identity, the text and the tree to the hasher, in this order,
  and leaves the line table out; \<^verbatim>\<open>impl AsRef<str>\<close> borrows the text.
\<close>

datatype 'n hash_item = Hash_Id file_id | Hash_Text rstr | Hash_Root 'n

definition source_hash :: "'n repr \<Rightarrow> 'n hash_item list" where
  "source_hash s = [Hash_Id (repr_id s), Hash_Text (repr_text s), Hash_Root (repr_root s)]"

definition as_ref :: "'n repr \<Rightarrow> rstr" where
  "as_ref s = source_text s"

text \<open>
  \<^verbatim>\<open>impl Debug\<close> writes \<^verbatim>\<open>Source(\<close>, the path of the identity as \<^verbatim>\<open>display\<close> prints it, and
  \<^verbatim>\<open>)\<close>. The text of a path belongs to the identities and is a parameter.
\<close>

definition fmt :: "(file_id \<Rightarrow> rstr) \<Rightarrow> 'n repr \<Rightarrow> rstr" where
  "fmt path_display s = [83, 111, 117, 114, 99, 101, 40] @ path_display (source_id s) @ [41]"

section \<open>Position queries\<close>

definition byte_to_line :: "'n repr \<Rightarrow> nat \<Rightarrow> nat option result" where
  "byte_to_line s byte =
     (if byte \<le> str_len (repr_text s)
      then rbind (search_rank (binary_search_by_key (repr_lines s) byte byte_idx))
             (\<lambda>i. Inr (Some i))
      else Inr None)"

definition byte_to_utf16 :: "'n repr \<Rightarrow> nat \<Rightarrow> nat option result" where
  "byte_to_utf16 s byte =
     try_opt (byte_to_line s byte) (\<lambda>line_idx.
     try_opt (Inr (get_at (repr_lines s) line_idx)) (\<lambda>line.
     try_opt (Inr (str_get (repr_text s) (byte_idx line) byte)) (\<lambda>head.
     Inr (Some (utf16_idx line + str_len_utf16 head)))))"

definition line_to_byte :: "'n repr \<Rightarrow> nat \<Rightarrow> nat option" where
  "line_to_byte s line_idx = map_option byte_idx (get_at (repr_lines s) line_idx)"

definition byte_to_column :: "'n repr \<Rightarrow> nat \<Rightarrow> nat option result" where
  "byte_to_column s byte =
     try_opt (byte_to_line s byte) (\<lambda>line.
     try_opt (Inr (line_to_byte s line)) (\<lambda>start.
     try_opt (Inr (get s (start, byte))) (\<lambda>head.
     Inr (Some (length head)))))"

text \<open>
  The loop of \<^verbatim>\<open>utf16_to_byte\<close> over the characters after the line start: \<open>k\<close> counts
  UTF-16 units, \<open>pos\<close> is the byte offset of the next character, \<open>len\<close> the length of
  the text, which is the answer when the target is the end of the text.
\<close>

fun utf16_scan :: "nat \<Rightarrow> nat \<Rightarrow> nat \<Rightarrow> nat \<Rightarrow> rstr \<Rightarrow> nat option" where
  "utf16_scan target len k pos [] = (if k = target then Some len else None)"
| "utf16_scan target len k pos (c # cs) =
     (if target \<le> k then Some pos
      else utf16_scan target len (k + char_len_utf16 c) (pos + char_len_utf8 c) cs)"

definition utf16_to_byte :: "'n repr \<Rightarrow> nat \<Rightarrow> nat option result" where
  "utf16_to_byte s utf16 =
     rbind (search_rank (binary_search_by_key (repr_lines s) utf16 utf16_idx)) (\<lambda>i.
     try_opt (Inr (get_at (repr_lines s) i)) (\<lambda>line.
     rbind (str_from (repr_text s) (byte_idx line)) (\<lambda>tail.
     Inr (utf16_scan utf16 (str_len (repr_text s)) (utf16_idx line) (byte_idx line) tail))))"

definition line_to_range :: "'n repr \<Rightarrow> nat \<Rightarrow> byte_range option" where
  "line_to_range s line_idx =
     (case line_to_byte s line_idx of
        None \<Rightarrow> None
      | Some start \<Rightarrow>
          Some (start,
            (case line_to_byte s (line_idx + 1) of
               None \<Rightarrow> str_len (repr_text s)
             | Some e \<Rightarrow> e)))"

definition line_column_to_byte :: "'n repr \<Rightarrow> nat \<Rightarrow> nat \<Rightarrow> nat option" where
  "line_column_to_byte s line_idx column_idx =
     (case line_to_range s line_idx of
        None \<Rightarrow> None
      | Some r \<Rightarrow>
          (case get s r of
             None \<Rightarrow> None
           | Some l \<Rightarrow>
               Some (fst r + (str_len l - str_len (drop column_idx l)))))"

lemmas [query_defs] =
  byte_to_line_def byte_to_utf16_def line_to_byte_def byte_to_column_def utf16_to_byte_def
  line_to_range_def line_column_to_byte_def get_def source_text_def len_utf16_def
  len_bytes_def len_lines_def

section \<open>The invariant\<close>

text \<open>
  The line table of a snapshot is the table of its text. \<open>line_at\<close> and
  \<open>line_at_utf16\<close> are the specifications of the two searches: the index of the last
  line that starts at or before a byte offset, or a UTF-16 offset.
\<close>

definition source_inv :: "'n repr \<Rightarrow> bool" where
  "source_inv s \<longleftrightarrow> repr_lines s = lines (repr_text s)"

definition line_at :: "rstr \<Rightarrow> nat \<Rightarrow> nat" where
  "line_at t b = rank (map byte_idx (lines t)) b - 1"

definition line_at_utf16 :: "rstr \<Rightarrow> nat \<Rightarrow> nat" where
  "line_at_utf16 t u = rank (map utf16_idx (lines t)) u - 1"

lemma source_invD: "source_inv s \<Longrightarrow> repr_lines s = lines (repr_text s)"
  by (simp add: source_inv_def)

lemma rank_lines_byte_pos [simp]: "0 < rank (map byte_idx (lines s)) b"
  by (simp add: lines_eq)

lemma rank_lines_utf16_pos [simp]: "0 < rank (map utf16_idx (lines s)) u"
  by (simp add: lines_eq)

lemma Suc_line_at: "Suc (line_at t b) = rank (map byte_idx (lines t)) b"
proof -
  have "0 < rank (map byte_idx (lines t)) b" by simp
  then show ?thesis unfolding line_at_def by linarith
qed

lemma Suc_line_at_utf16: "Suc (line_at_utf16 t u) = rank (map utf16_idx (lines t)) u"
proof -
  have "0 < rank (map utf16_idx (lines t)) u" by simp
  then show ?thesis unfolding line_at_utf16_def by linarith
qed

lemma line_at_less [simp]: "line_at t b < length (lines t)"
  using rank_le_length [of "map byte_idx (lines t)" b] Suc_line_at [of t b] by simp

lemma line_at_utf16_less [simp]: "line_at_utf16 t u < length (lines t)"
  using rank_le_length [of "map utf16_idx (lines t)" u] Suc_line_at_utf16 [of t u] by simp

lemma search_lines_byte:
  "search_rank (binary_search_by_key (lines t) b byte_idx) = Inr (line_at t b)"
  by (simp add: search_rank_by_key sorted_lines_byte line_at_def)

lemma search_lines_utf16:
  "search_rank (binary_search_by_key (lines t) u utf16_idx) = Inr (line_at_utf16 t u)"
  by (simp add: search_rank_by_key sorted_lines_utf16 line_at_utf16_def)

lemma line_at_le: "byte_idx (lines t ! line_at t b) \<le> b"
proof -
  have "map byte_idx (lines t) ! line_at t b \<le> b"
    using rank_nth_le [OF sorted_lines_byte, of t b] by (simp add: line_at_def)
  then show ?thesis by simp
qed

lemma line_at_utf16_le: "utf16_idx (lines t ! line_at_utf16 t u) \<le> u"
proof -
  have "map utf16_idx (lines t) ! line_at_utf16 t u \<le> u"
    using rank_nth_le [OF sorted_lines_utf16, of t u] by (simp add: line_at_utf16_def)
  then show ?thesis by simp
qed

lemma line_at_next_gt: "Suc (line_at t b) < length (lines t) \<Longrightarrow> b < byte_idx (lines t ! Suc (line_at t b))"
  using rank_nth_gt [OF sorted_lines_byte, of t b] by (simp add: Suc_line_at)

text \<open>The first \<open>line_at + 1\<close> entries are the table up to the position.\<close>

lemma take_line_at:
  "take (Suc (line_at (p @ q) (str_len p))) (lines (p @ q)) = lines_upto p q"
proof -
  let ?T = "lines (p @ q)" and ?P = "\<lambda>l. byte_idx l \<le> str_len p"
  have "Suc (line_at (p @ q) (str_len p)) = length (filter ?P ?T)"
    by (simp only: Suc_line_at rank_map)
  then have "take (Suc (line_at (p @ q) (str_len p))) ?T = filter ?P ?T"
    using filter_le_sorted_take [where k = byte_idx and xs = ?T and b = "str_len p",
        OF sorted_lines_byte] by simp
  also have "\<dots> = filter ?P (lines_upto p q)
      @ filter ?P (line_starts (str_len p) (str_len_utf16 p) q)"
    by (simp add: lines_append_upto)
  also have "filter ?P (lines_upto p q) = lines_upto p q"
    by (simp add: filter_id_conv lines_upto_le)
  also have "filter ?P (line_starts (str_len p) (str_len_utf16 p) q) = []"
    by (auto simp: filter_empty_conv dest!: line_starts_bounds)
  finally show ?thesis by simp
qed

section \<open>The line of a position\<close>

text \<open>The line of a position starts at a prefix of what precedes the position.\<close>

lemma line_at_prefix:
  obtains p0 m where "p = p0 @ m" and "lines (p @ q) ! line_at (p @ q) (str_len p) = entry 0 0 p0"
proof -
  let ?l = "lines (p @ q) ! line_at (p @ q) (str_len p)"
  have "?l \<in> set (lines (p @ q))" by (rule nth_mem) simp
  then obtain p0 q0 where pq: "p @ q = p0 @ q0" and l: "?l = entry 0 0 p0"
    using in_lines_prefix by blast
  from l have "str_len p0 \<le> str_len p"
    using line_at_le [of "p @ q" "str_len p"] by simp
  with pq obtain m where "p = p0 @ m"
    using prefix_str_len_le [of p0 q0 p q] by auto
  with l that show thesis by blast
qed

lemma line_at_utf16_prefix:
  obtains p0 m where "p = p0 @ m"
    and "lines (p @ q) ! line_at_utf16 (p @ q) (str_len_utf16 p) = entry 0 0 p0"
proof -
  let ?l = "lines (p @ q) ! line_at_utf16 (p @ q) (str_len_utf16 p)"
  have "?l \<in> set (lines (p @ q))" by (rule nth_mem) simp
  then obtain p0 q0 where pq: "p @ q = p0 @ q0" and l: "?l = entry 0 0 p0"
    using in_lines_prefix by blast
  from l have "str_len_utf16 p0 \<le> str_len_utf16 p"
    using line_at_utf16_le [of "p @ q" "str_len_utf16 p"] by simp
  with pq obtain m where "p = p0 @ m"
    using prefix_str_len_utf16_le [of p0 q0 p q] by auto
  with l that show thesis by blast
qed

section \<open>The queries on a snapshot that satisfies the invariant\<close>

lemma byte_to_line_inv:
  assumes "source_inv s"
  shows "byte_to_line s b =
    Inr (if b \<le> str_len (repr_text s) then Some (line_at (repr_text s) b) else None)"
  using assms by (simp add: byte_to_line_def source_inv_def search_lines_byte)

lemma byte_to_utf16_prefix:
  assumes "source_inv s" and "repr_text s = p @ q"
  shows "byte_to_utf16 s (str_len p) = Inr (Some (str_len_utf16 p))"
proof -
  obtain p0 m where p: "p = p0 @ m"
    and l: "lines (p @ q) ! line_at (p @ q) (str_len p) = entry 0 0 p0"
    by (rule line_at_prefix)
  have "str_get (p0 @ m @ q) (str_len p0) (str_len p0 + str_len m) = Some m"
    by (rule str_get_append)
  with assms p l show ?thesis
    by (simp add: byte_to_utf16_def byte_to_line_inv) (simp add: source_inv_def)
qed

lemma str_get_not_boundary: "\<not> is_char_boundary t b \<Longrightarrow> str_get t a b = None"
proof (rule ccontr)
  assume nb: "\<not> is_char_boundary t b" and "str_get t a b \<noteq> None"
  then obtain m p q where "t = p @ m @ q" "str_len p = a" "a + str_len m = b"
    by (auto simp: str_get_Some_iff)
  then have "is_char_boundary t b"
    using is_char_boundary_append [of "p @ m" q] by simp
  with nb show False by simp
qed

lemma byte_to_utf16_not_boundary:
  assumes "source_inv s" and "\<not> is_char_boundary (repr_text s) b"
  shows "byte_to_utf16 s b = Inr None"
  using assms
  by (simp add: byte_to_utf16_def byte_to_line_inv str_get_not_boundary)
    (simp add: source_inv_def)

lemma byte_to_column_prefix:
  assumes "source_inv s" and "repr_text s = p @ q"
  obtains p0 m where "p = p0 @ m"
    and "line_to_byte s (line_at (p @ q) (str_len p)) = Some (str_len p0)"
    and "byte_to_column s (str_len p) = Inr (Some (length m))"
proof -
  obtain p0 m where p: "p = p0 @ m"
    and l: "lines (p @ q) ! line_at (p @ q) (str_len p) = entry 0 0 p0"
    by (rule line_at_prefix)
  have "str_get (p0 @ m @ q) (str_len p0) (str_len p0 + str_len m) = Some m"
    by (rule str_get_append)
  with assms p l have "byte_to_column s (str_len p) = Inr (Some (length m))"
    by (simp add: byte_to_column_def byte_to_line_inv line_to_byte_def get_def source_text_def)
       (simp add: source_inv_def)
  moreover from assms l have "line_to_byte s (line_at (p @ q) (str_len p)) = Some (str_len p0)"
    by (simp add: line_to_byte_def source_inv_def)
  ultimately show thesis using p that by blast
qed

lemma utf16_scan_prefix:
  "utf16_scan (k + str_len_utf16 m) len k pos (m @ q) =
     Some (if q = [] then len else pos + str_len m)"
proof (induction m arbitrary: k pos)
  case Nil
  show ?case by (cases q) simp_all
next
  case (Cons c m)
  from Cons [of "k + char_len_utf16 c" "pos + char_len_utf8 c"] show ?case
    by (simp add: add.assoc)
qed

lemma utf16_to_byte_prefix:
  assumes "source_inv s" and "repr_text s = p @ q"
  shows "utf16_to_byte s (str_len_utf16 p) = Inr (Some (str_len p))"
proof -
  obtain p0 m where p: "p = p0 @ m"
    and l: "lines (p @ q) ! line_at_utf16 (p @ q) (str_len_utf16 p) = entry 0 0 p0"
    by (rule line_at_utf16_prefix)
  have "str_from (p0 @ m @ q) (str_len p0) = Inr (m @ q)"
    by (rule str_from_append)
  moreover have "utf16_scan (str_len_utf16 p0 + str_len_utf16 m) (str_len (p0 @ m @ q))
      (str_len_utf16 p0) (str_len p0) (m @ q) = Some (str_len p0 + str_len m)"
    by (simp add: utf16_scan_prefix)
  ultimately show ?thesis
    using assms p l
    by (simp add: utf16_to_byte_def source_inv_def search_lines_utf16)
qed

lemma len_utf16_inv:
  assumes "source_inv s"
  shows "len_utf16 s = Inr (str_len_utf16 (repr_text s))"
proof -
  obtain p q where "repr_text s = p @ q" "last (lines (repr_text s)) = entry 0 0 p"
    by (rule last_lines_prefix)
  with assms show ?thesis by (simp add: len_utf16_def source_inv_def)
qed

text \<open>The range of the line of a position starts before the position and ends after it.\<close>

lemma line_to_range_at:
  assumes "source_inv s" and "repr_text s = p @ q"
  obtains p0 m m1 q1 where "p = p0 @ m" and "q = m1 @ q1"
    and "line_to_range s (line_at (p @ q) (str_len p)) = Some (str_len p0, str_len p + str_len m1)"
proof -
  let ?T = "lines (p @ q)" and ?i = "line_at (p @ q) (str_len p)"
  obtain p0 m where p: "p = p0 @ m" and l: "?T ! ?i = entry 0 0 p0"
    by (rule line_at_prefix)
  from assms l have start: "line_to_byte s ?i = Some (str_len p0)"
    by (simp add: line_to_byte_def source_inv_def)
  show thesis
  proof (cases "Suc ?i < length ?T")
    case False
    with assms have "line_to_byte s (?i + 1) = None"
      by (simp add: line_to_byte_def source_inv_def)
    with start assms have "line_to_range s ?i = Some (str_len p0, str_len p + str_len q)"
      by (simp add: line_to_range_def)
    with p that [of p0 m q "[]"] show thesis by simp
  next
    case True
    then have "?T ! Suc ?i \<in> set ?T" by simp
    then obtain p1 q1 where pq: "p @ q = p1 @ q1" and l1: "?T ! Suc ?i = entry 0 0 p1"
      using in_lines_prefix by blast
    from l1 have "str_len p \<le> str_len p1"
      using line_at_next_gt [OF True] by simp
    with pq obtain m1 where m1: "p1 = p @ m1" "q = m1 @ q1"
      using prefix_str_len_le [of p q p1 q1] by auto
    from assms True l1 have "line_to_byte s (?i + 1) = Some (str_len p1)"
      by (simp add: line_to_byte_def source_inv_def)
    with start m1 have "line_to_range s ?i = Some (str_len p0, str_len p + str_len m1)"
      by (simp add: line_to_range_def)
    with p m1 that [of p0 m m1 q1] show thesis by simp
  qed
qed

lemma line_column_to_byte_at:
  assumes "repr_text s = p0 @ m @ m1 @ q1"
    and "line_to_range s i = Some (str_len p0, str_len p0 + str_len m + str_len m1)"
  shows "line_column_to_byte s i (length m) = Some (str_len p0 + str_len m)"
proof -
  have "str_get (p0 @ (m @ m1) @ q1) (str_len p0) (str_len p0 + str_len (m @ m1)) = Some (m @ m1)"
    by (rule str_get_append)
  with assms show ?thesis
    by (simp add: line_column_to_byte_def get_def source_text_def add.assoc)
qed

section \<open>The queries as functions of the text\<close>

text \<open>
  Under the invariant every query is a function of the text alone. The lemmas of this
  section give that function for each query.
\<close>

lemma byte_to_utf16_inv:
  assumes "source_inv s"
  shows "byte_to_utf16 s b =
    Inr (map_option (\<lambda>(p, q). str_len_utf16 p) (split_at_byte (repr_text s) b))"
proof (cases "split_at_byte (repr_text s) b")
  case None
  then have "\<not> is_char_boundary (repr_text s) b" by (simp add: is_char_boundary_def)
  with assms None show ?thesis by (simp add: byte_to_utf16_not_boundary)
next
  case (Some pq)
  then obtain p q where "repr_text s = p @ q" "str_len p = b" "pq = (p, q)"
    by (cases pq) (auto dest: split_at_byte_SomeD)
  with assms Some show ?thesis using byte_to_utf16_prefix [of s p q] by simp
qed

text \<open>The scan passes over a prefix that ends at or before the target.\<close>

lemma utf16_scan_skip:
  "k + str_len_utf16 m \<le> target \<Longrightarrow>
   utf16_scan target len k pos (m @ q) =
     utf16_scan target len (k + str_len_utf16 m) (pos + str_len m) q"
proof (induction m arbitrary: k pos)
  case Nil
  show ?case by simp
next
  case (Cons c m)
  have "0 < char_len_utf16 c" by simp
  with Cons.prems have "\<not> target \<le> k" unfolding str_len_utf16_simps by linarith
  with Cons.IH [of "k + char_len_utf16 c" "pos + char_len_utf8 c"] Cons.prems show ?case
    by (simp add: add.assoc)
qed

lemma utf16_scan_beyond:
  "k + str_len_utf16 cs < target \<Longrightarrow> utf16_scan target len k pos cs = None"
  by (induction cs arbitrary: k pos) (simp_all add: add.assoc)

lemma utf16_scan_unaligned:
  "char_len_utf16 c = 2 \<Longrightarrow>
   utf16_scan (k + 1) len k pos (c # q) = (if q = [] then None else Some (pos + char_len_utf8 c))"
  by (cases q) simp_all

text \<open>
  The search for the line and the scan from its start find what a scan from the start
  of the text finds.
\<close>

lemma utf16_to_byte_inv:
  assumes "source_inv s"
  shows "utf16_to_byte s u =
    Inr (utf16_scan u (str_len (repr_text s)) 0 0 (repr_text s))"
proof -
  let ?t = "repr_text s"
  let ?l = "lines ?t ! line_at_utf16 ?t u"
  have "?l \<in> set (lines ?t)" by (rule nth_mem) simp
  then obtain p q where t: "?t = p @ q" and l: "?l = entry 0 0 p"
    using in_lines_prefix by blast
  from l have le: "0 + str_len_utf16 p \<le> u" using line_at_utf16_le [of ?t u] by simp
  have "str_from ?t (str_len p) = Inr q" unfolding t by (rule str_from_append)
  with assms l utf16_scan_skip [OF le, of "str_len ?t" 0 q] show ?thesis
    by (simp add: utf16_to_byte_def source_inv_def search_lines_utf16 t)
qed

text \<open>Lengths of prefixes grow with the prefix.\<close>

lemma str_len_take_mono:
  "n \<le> length t \<Longrightarrow> k \<le> length t \<Longrightarrow> str_len (take n t) \<le> str_len (take k t) \<longleftrightarrow> n \<le> k"
proof (induction t arbitrary: n k)
  case Nil
  then show ?case by simp
next
  case (Cons c t)
  then show ?case by (cases n; cases k) simp_all
qed

text \<open>The panics of the queries, all at once.\<close>

lemma byte_to_column_inv:
  assumes "source_inv s"
  shows "\<exists>r. byte_to_column s b = Inr r"
proof (cases "b \<le> str_len (repr_text s)")
  case True
  with assms show ?thesis
    by (auto simp: byte_to_column_def byte_to_line_inv try_opt_def line_to_byte_def
        split: option.splits)
next
  case False
  with assms show ?thesis by (simp add: byte_to_column_def byte_to_line_inv)
qed

text \<open>The range of a line of the table, and the line itself.\<close>

lemma line_to_range_inv:
  assumes "source_inv s" and "i < length (lines (repr_text s))"
  obtains p m q where "repr_text s = p @ m @ q"
    and "line_to_range s i = Some (str_len p, str_len p + str_len m)"
    and "lines (repr_text s) ! i = entry 0 0 p"
    and "if Suc i < length (lines (repr_text s))
         then lines (repr_text s) ! Suc i = entry 0 0 (p @ m) \<and> m \<noteq> [] else q = []"
proof -
  let ?T = "lines (repr_text s)"
  from assms(2) have "?T ! i \<in> set ?T" by simp
  then obtain p r where t: "repr_text s = p @ r" and l: "?T ! i = entry 0 0 p"
    using in_lines_prefix by blast
  from assms l have start: "line_to_byte s i = Some (str_len p)"
    by (simp add: line_to_byte_def source_inv_def)
  show thesis
  proof (cases "Suc i < length ?T")
    case False
    with assms have "line_to_byte s (i + 1) = None"
      by (simp add: line_to_byte_def source_inv_def)
    with start t have "line_to_range s i = Some (str_len p, str_len p + str_len r)"
      by (simp add: line_to_range_def)
    with t l False that [of p r "[]"] show thesis by simp
  next
    case True
    then have "?T ! Suc i \<in> set ?T" by simp
    then obtain p1 q1 where t1: "repr_text s = p1 @ q1" and l1: "?T ! Suc i = entry 0 0 p1"
      using in_lines_prefix by blast
    have "byte_idx (?T ! i) < byte_idx (?T ! Suc i)"
      using sorted_wrt_less_nth [OF sorted_lines_byte, of i "Suc i" "repr_text s"] True by simp
    with l l1 have lt: "str_len p < str_len p1" by simp
    with t t1 obtain m where m: "p1 = p @ m" "r = m @ q1"
      using prefix_str_len_le [of p r p1 q1] by auto
    from assms True l1 have "line_to_byte s (i + 1) = Some (str_len p1)"
      by (simp add: line_to_byte_def source_inv_def)
    with start m have "line_to_range s i = Some (str_len p, str_len p + str_len m)"
      by (simp add: line_to_range_def)
    moreover from lt m have "m \<noteq> []" by auto
    ultimately show thesis using t m l l1 True that [of p m q1] by simp
  qed
qed

lemma str_len_take_drop: "str_len l - str_len (drop c l) = str_len (take c l)"
proof -
  have "str_len (take c l @ drop c l) = str_len (take c l) + str_len (drop c l)"
    by (simp only: str_len_simps)
  then show ?thesis by simp
qed

section \<open>Queries before a cut\<close>

text \<open>
  A query at an offset before a cut of the text is decided by the text before the cut:
  the records of the table that lie after the offset do not matter.
\<close>

lemma last_lines_ends_CR: "ends_with p CR \<Longrightarrow> lines p = butlast (lines p) @ [entry 0 0 p]"
  by (auto simp: ends_with_iff lines_eq line_starts_snoc_CR butlast_append)

lemma rank_lines_before:
  assumes "b < str_len p"
  shows "rank (map byte_idx (lines (p @ r))) b = rank (map byte_idx (lines p)) b"
    and "rank (map byte_idx (lines_upto p r)) b = rank (map byte_idx (lines p)) b"
proof -
  have "\<forall>l \<in> set (line_starts (str_len p) (str_len_utf16 p) r). \<not> byte_idx l \<le> b"
    using assms line_starts_bounds by fastforce
  then have 0: "rank (map byte_idx (line_starts (str_len p) (str_len_utf16 p) r)) b = 0"
    by (simp add: rank_map filter_empty_conv)
  show 1: "rank (map byte_idx (lines_upto p r)) b = rank (map byte_idx (lines p)) b"
  proof (cases "ends_with p CR \<and> starts_with r LF")
    case True
    then have "rank (map byte_idx (lines p)) b
        = rank (map byte_idx (butlast (lines p) @ [entry 0 0 p])) b"
      using last_lines_ends_CR [of p] by simp
    with True assms show ?thesis by (simp add: lines_upto_def)
  next
    case False
    then show ?thesis by (auto simp: lines_upto_def)
  qed
  show "rank (map byte_idx (lines (p @ r))) b = rank (map byte_idx (lines p)) b"
    by (simp add: lines_append_upto 0 1)
qed

lemma line_at_before: "b < str_len p \<Longrightarrow> line_at (p @ r) b = line_at p b"
  by (simp add: line_at_def rank_lines_before)

lemma lines_nth_before:
  assumes "b < str_len p"
  shows "lines (p @ r) ! line_at p b = lines p ! line_at p b"
proof -
  have "Suc (line_at p b) = rank (map byte_idx (lines_upto p r)) b"
    using assms by (simp add: Suc_line_at rank_lines_before)
  also have "\<dots> \<le> length (lines_upto p r)"
    using rank_le_length [of "map byte_idx (lines_upto p r)" b] by simp
  finally have i: "line_at p b < length (lines_upto p r)" by simp
  then have "lines (p @ r) ! line_at p b = lines_upto p r ! line_at p b"
    by (simp add: lines_append_upto nth_append)
  also from i have "\<dots> = lines p ! line_at p b"
    by (auto simp: lines_upto_def nth_butlast split: if_splits)
  finally show ?thesis .
qed

lemma queries_before_cut:
  assumes "source_inv s" and "repr_text s = p @ r" and "b < str_len p"
  shows "byte_to_line s b = Inr (Some (line_at p b))"
    and "byte_to_utf16 s b = Inr (map_option (\<lambda>(x, y). str_len_utf16 x) (split_at_byte p b))"
    and "byte_to_column s b =
      Inr (map_option length (str_get p (byte_idx (lines p ! line_at p b)) b))"
proof -
  from assms show 1: "byte_to_line s b = Inr (Some (line_at p b))"
    by (simp add: byte_to_line_inv line_at_before)
  from assms show "byte_to_utf16 s b =
      Inr (map_option (\<lambda>(x, y). str_len_utf16 x) (split_at_byte p b))"
    by (cases "split_at_byte p b") (auto simp: byte_to_utf16_inv split_at_byte_prefix)
  have "line_to_byte s (line_at p b) = Some (byte_idx (lines p ! line_at p b))"
    using assms line_at_less [of "p @ r" b]
    by (simp add: line_to_byte_def source_inv_def line_at_before lines_nth_before)
  with assms show "byte_to_column s b =
      Inr (map_option length (str_get p (byte_idx (lines p ! line_at p b)) b))"
    by (cases "str_get p (byte_idx (lines p ! line_at p b)) b")
      (simp_all add: byte_to_column_def 1 get_def source_text_def str_get_prefix)
qed

section \<open>A concrete snapshot\<close>

text \<open>
  The snapshot of a text whose tree is the text itself: what \<^verbatim>\<open>Source::detached\<close>
  builds when parsing and numbering change nothing. The properties below are applied
  to it.
\<close>

definition snapshot :: "rstr \<Rightarrow> rstr repr" where
  "snapshot t = \<lparr>repr_id = Detached, repr_text = t, repr_root = t, repr_lines = lines t\<rparr>"

lemma snapshot_simps [simp]:
  "repr_text (snapshot t) = t" "repr_root (snapshot t) = t"
  "repr_lines (snapshot t) = lines t" "repr_id (snapshot t) = Detached"
  by (simp_all add: snapshot_def)

lemma source_inv_snapshot [simp]: "source_inv (snapshot t)"
  by (simp add: source_inv_def)

text \<open>The rules that compute a query on a concrete snapshot.\<close>

lemmas eval_query =
  query_defs binary_search_by_key_def binary_search_loop.simps search_rank_def
  str_get_def str_from_def eval_lines

end
