(* ===== verification/Source_Queries.thy ===== *)
theory Source_Queries
  imports Source
begin

text \<open>
  What the read operations of \<^verbatim>\<open>Source\<close> guarantee: the round trips between the kinds
  of position, each query as a function of the text, the cases in which a query gives
  nothing, the absence of panics under the invariant, and what \<^verbatim>\<open>impl Hash\<close> and
  \<^verbatim>\<open>impl Debug\<close> tell apart. The definitions and the lemmas that carry these proofs are
  in \<open>Source\<close>.
\<close>

section \<open>Properties of the queries\<close>

text \<open>
  C4. Round trip through UTF-16: on a snapshot whose table is the table of its text,
  the UTF-16 offset of a byte offset that lies on a character boundary converts back to
  that byte offset.
\<close>

theorem roundtrip_utf16:
  assumes "source_inv s" and "is_char_boundary (repr_text s) b"
  shows "try_opt (byte_to_utf16 s b) (utf16_to_byte s) = Inr (Some b)"
proof -
  from assms(2) obtain p q where t: "repr_text s = p @ q" and b: "str_len p = b"
    unfolding is_char_boundary_iff by blast
  from assms(1) t have "byte_to_utf16 s (str_len p) = Inr (Some (str_len_utf16 p))"
    by (rule byte_to_utf16_prefix)
  moreover from assms(1) t have "utf16_to_byte s (str_len_utf16 p) = Inr (Some (str_len p))"
    by (rule utf16_to_byte_prefix)
  ultimately show ?thesis using b by simp
qed

theorem roundtrip_utf16_witness:
  "source_inv (snapshot [102, 0x1F49B, 103, CR, LF, 104])
   \<and> is_char_boundary (repr_text (snapshot [102, 0x1F49B, 103, CR, LF, 104])) 5
   \<and> byte_to_utf16 (snapshot [102, 0x1F49B, 103, CR, LF, 104]) 5 = Inr (Some 3)
   \<and> try_opt (byte_to_utf16 (snapshot [102, 0x1F49B, 103, CR, LF, 104]) 5)
       (utf16_to_byte (snapshot [102, 0x1F49B, 103, CR, LF, 104])) = Inr (Some 5)"
proof -
  let ?s = "snapshot [102, 0x1F49B, 103, CR, LF, 104]"
  have 1: "source_inv ?s" by simp
  have 2: "is_char_boundary (repr_text ?s) 5"
    by (simp add: is_char_boundary_def char_len_utf8_def)
  have 3: "byte_to_utf16 ?s 5 = Inr (Some 3)"
    by (simp add: byte_to_utf16_inv char_len_utf8_def char_len_utf16_def)
  from roundtrip_utf16 [OF 1 2] 1 2 3 show ?thesis by blast
qed

text \<open>
  C5. Round trip through line and column: on a snapshot whose table is the table of
  its text, the line and the column of a byte offset that lies on a character boundary
  convert back to that byte offset.
\<close>

theorem roundtrip_line_column:
  assumes "source_inv s" and "is_char_boundary (repr_text s) b"
  shows "\<exists>l c. byte_to_line s b = Inr (Some l) \<and> byte_to_column s b = Inr (Some c)
    \<and> line_column_to_byte s l c = Some b"
proof -
  from assms(2) obtain p q where t: "repr_text s = p @ q" and b: "str_len p = b"
    unfolding is_char_boundary_iff by blast
  let ?i = "line_at (p @ q) (str_len p)"
  from assms(1) t have l: "byte_to_line s (str_len p) = Inr (Some ?i)"
    by (simp add: byte_to_line_inv)
  from assms(1) t obtain p0 m where p: "p = p0 @ m"
    and start: "line_to_byte s ?i = Some (str_len p0)"
    and c: "byte_to_column s (str_len p) = Inr (Some (length m))"
    by (rule byte_to_column_prefix)
  from assms(1) t obtain p0' m' m1 q1 where p': "p = p0' @ m'" and q: "q = m1 @ q1"
    and r: "line_to_range s ?i = Some (str_len p0', str_len p + str_len m1)"
    by (rule line_to_range_at)
  from r start have "str_len p0' = str_len p0"
    by (auto simp: line_to_range_def split: option.splits)
  with p p' have "p0' = p0" "m' = m"
    using prefix_str_len_unique [of p0' m' p0 m] by auto
  with t p q r have "line_column_to_byte s ?i (length m) = Some (str_len p0 + str_len m)"
    by (intro line_column_to_byte_at [where ?m1.0 = m1 and ?q1.0 = q1]) (simp_all add: add.assoc)
  with l c p b show ?thesis by auto
qed

theorem roundtrip_line_column_witness:
  "source_inv (snapshot [102, 0x1F49B, 103, CR, LF, 104])
   \<and> is_char_boundary (repr_text (snapshot [102, 0x1F49B, 103, CR, LF, 104])) 8
   \<and> byte_to_line (snapshot [102, 0x1F49B, 103, CR, LF, 104]) 8 = Inr (Some 1)
   \<and> (\<exists>l c. byte_to_line (snapshot [102, 0x1F49B, 103, CR, LF, 104]) 8 = Inr (Some l)
        \<and> byte_to_column (snapshot [102, 0x1F49B, 103, CR, LF, 104]) 8 = Inr (Some c)
        \<and> line_column_to_byte (snapshot [102, 0x1F49B, 103, CR, LF, 104]) l c = Some 8)"
proof -
  let ?s = "snapshot [102, 0x1F49B, 103, CR, LF, 104]"
  have 1: "source_inv ?s" by simp
  have 2: "is_char_boundary (repr_text ?s) 8"
    by (simp add: is_char_boundary_def char_len_utf8_def)
  have 3: "byte_to_line ?s 8 = Inr (Some 1)"
    by (simp add: eval_query)
  from roundtrip_line_column [OF 1 2] 1 2 3 show ?thesis by blast
qed

text \<open>
  C8. On a snapshot whose table is the table of its text, \<^verbatim>\<open>byte_to_line\<close> of an
  offset up to the length of the text returns a line of the table whose range holds
  the offset: the range starts at or before it and ends after it, or, for the last
  line, at or after it and at the end of the text.
\<close>

theorem byte_to_line_in_range:
  assumes "source_inv s" and "b \<le> len_bytes s"
  shows "\<exists>i a e. byte_to_line s b = Inr (Some i) \<and> i < len_lines s
    \<and> line_to_range s i = Some (a, e) \<and> a \<le> b
    \<and> (if Suc i < len_lines s then b < e else b \<le> e \<and> e = len_bytes s)"
proof -
  let ?t = "repr_text s" and ?i = "line_at (repr_text s) b"
  from assms have l: "byte_to_line s b = Inr (Some ?i)"
    by (simp add: byte_to_line_inv len_bytes_def source_text_def)
  from assms(1) have n: "len_lines s = length (lines ?t)"
    by (simp add: len_lines_def source_inv_def)
  have i: "?i < length (lines ?t)" by simp
  from assms(1) i obtain p m q where t: "?t = p @ m @ q"
    and r: "line_to_range s ?i = Some (str_len p, str_len p + str_len m)"
    and li: "lines ?t ! ?i = entry 0 0 p"
    and nx: "if Suc ?i < length (lines ?t)
         then lines ?t ! Suc ?i = entry 0 0 (p @ m) \<and> m \<noteq> [] else q = []"
    by (rule line_to_range_inv)
  from li have a: "str_len p \<le> b" using line_at_le [of ?t b] by simp
  have "if Suc ?i < len_lines s then b < str_len p + str_len m
        else b \<le> str_len p + str_len m \<and> str_len p + str_len m = len_bytes s"
  proof (cases "Suc ?i < length (lines ?t)")
    case True
    with nx line_at_next_gt [OF True] n show ?thesis by simp
  next
    case False
    with nx n assms(2) show ?thesis
      by (simp add: len_bytes_def source_text_def) (simp add: t)
  qed
  with l r a i n show ?thesis by auto
qed

theorem byte_to_line_in_range_witness:
  "source_inv (snapshot [102, 0x1F49B, 103, CR, LF, 104])
   \<and> 6 \<le> len_bytes (snapshot [102, 0x1F49B, 103, CR, LF, 104])
   \<and> line_to_range (snapshot [102, 0x1F49B, 103, CR, LF, 104]) 0 = Some (0, 8)
   \<and> (\<exists>i a e. byte_to_line (snapshot [102, 0x1F49B, 103, CR, LF, 104]) 6 = Inr (Some i)
        \<and> i < len_lines (snapshot [102, 0x1F49B, 103, CR, LF, 104])
        \<and> line_to_range (snapshot [102, 0x1F49B, 103, CR, LF, 104]) i = Some (a, e) \<and> a \<le> 6
        \<and> (if Suc i < len_lines (snapshot [102, 0x1F49B, 103, CR, LF, 104]) then 6 < e
            else 6 \<le> e \<and> e = len_bytes (snapshot [102, 0x1F49B, 103, CR, LF, 104])))"
proof -
  let ?s = "snapshot [102, 0x1F49B, 103, CR, LF, 104]"
  have 1: "source_inv ?s" by simp
  have 2: "6 \<le> len_bytes ?s" by (simp add: eval_query)
  have 3: "line_to_range ?s 0 = Some (0, 8)" by (simp add: eval_query)
  from byte_to_line_in_range [OF 1 2] 1 2 3 show ?thesis by blast
qed

text \<open>
  C10. On a snapshot whose table is the table of its text, \<^verbatim>\<open>byte_to_utf16\<close> does not
  panic, and it returns a UTF-16 offset exactly for the byte offsets that lie on a
  character boundary of the text: the offset is the UTF-16 length of the text before
  the boundary, so the search for the line and the count from its start agree with a
  count from the start of the text.
\<close>

theorem byte_to_utf16_correct:
  assumes "source_inv s"
  shows "no_panic (byte_to_utf16 s b)
    \<and> (byte_to_utf16 s b = Inr (Some u)
        \<longleftrightarrow> (\<exists>p q. repr_text s = p @ q \<and> str_len p = b \<and> str_len_utf16 p = u))"
proof (cases "split_at_byte (repr_text s) b")
  case None
  then have "\<not> is_char_boundary (repr_text s) b" by (simp add: is_char_boundary_def)
  then have "\<nexists>p q. repr_text s = p @ q \<and> str_len p = b" by (simp add: is_char_boundary_iff)
  with None show ?thesis by (auto simp: byte_to_utf16_inv [OF assms])
next
  case (Some pq)
  then obtain p0 q0 where pq: "pq = (p0, q0)" and t: "repr_text s = p0 @ q0" "str_len p0 = b"
    by (cases pq) (auto dest: split_at_byte_SomeD)
  have "(\<exists>p q. repr_text s = p @ q \<and> str_len p = b \<and> str_len_utf16 p = u)
      \<longleftrightarrow> str_len_utf16 p0 = u"
    using t prefix_str_len_unique [of _ _ p0 q0] by metis
  with Some pq show ?thesis by (auto simp: byte_to_utf16_inv [OF assms])
qed

theorem byte_to_utf16_correct_witness:
  "source_inv (snapshot [102, 0x1F49B, 103, CR, LF, 104])
   \<and> no_panic (byte_to_utf16 (snapshot [102, 0x1F49B, 103, CR, LF, 104]) 3)
   \<and> byte_to_utf16 (snapshot [102, 0x1F49B, 103, CR, LF, 104]) 3 = Inr None
   \<and> byte_to_utf16 (snapshot [102, 0x1F49B, 103, CR, LF, 104]) 5 = Inr (Some 3)"
proof -
  let ?s = "snapshot [102, 0x1F49B, 103, CR, LF, 104]"
  have 1: "source_inv ?s" by simp
  have 2: "byte_to_utf16 ?s 3 = Inr None"
    by (simp add: byte_to_utf16_inv char_len_utf8_def char_len_utf16_def)
  have "\<exists>p q. repr_text ?s = p @ q \<and> str_len p = 5 \<and> str_len_utf16 p = 3"
    by (intro exI [of _ "[102, 0x1F49B]"] exI [of _ "[103, CR, LF, 104]"])
      (simp add: char_len_utf8_def char_len_utf16_def)
  with byte_to_utf16_correct [OF 1, of 5 3] byte_to_utf16_correct [OF 1, of 3] 1 2
  show ?thesis by simp
qed

text \<open>What a successful scan found: the target, or the boundary after a character that spans it.\<close>

lemma utf16_scan_SomeD:
  "utf16_scan target len k pos cs = Some b \<Longrightarrow> k \<le> target \<Longrightarrow> len = pos + str_len cs \<Longrightarrow>
   \<exists>m q. cs = m @ q \<and> b = pos + str_len m \<and>
     (k + str_len_utf16 m = target
      \<or> (k + str_len_utf16 m = target + 1 \<and> q \<noteq> [] \<and> m \<noteq> [] \<and> char_len_utf16 (last m) = 2))"
proof (induction cs arbitrary: k pos)
  case Nil
  then show ?case by (auto split: if_splits)
next
  case (Cons c cs)
  show ?case
  proof (cases "target \<le> k")
    case True
    with Cons.prems have "b = pos" "k = target" by simp_all
    then show ?thesis by (intro exI [of _ "[]"] exI [of _ "c # cs"]) simp
  next
    case False
    with Cons.prems have
      rec: "utf16_scan target len (k + char_len_utf16 c) (pos + char_len_utf8 c) cs = Some b"
      by simp
    show ?thesis
    proof (cases "k + char_len_utf16 c \<le> target")
      case True
      from Cons.IH [OF rec True] Cons.prems(3)
      obtain m q where mq: "cs = m @ q" "b = pos + char_len_utf8 c + str_len m"
        "k + char_len_utf16 c + str_len_utf16 m = target
         \<or> (k + char_len_utf16 c + str_len_utf16 m = target + 1 \<and> q \<noteq> [] \<and> m \<noteq> []
             \<and> char_len_utf16 (last m) = 2)"
        by (auto simp: add.assoc)
      then show ?thesis
        by (intro exI [of _ "c # m"] exI [of _ q]) (auto simp: add.assoc)
    next
      case over: False
      with False have c: "char_len_utf16 c = 2" "k + 1 = target"
        by (auto simp: char_len_utf16_def split: if_splits)
      with rec over have "cs \<noteq> []" "b = pos + char_len_utf8 c"
        by (cases cs; simp)+
      with c show ?thesis by (intro exI [of _ "[c]"] exI [of _ cs]) simp
    qed
  qed
qed

lemma utf16_scan_Some_iff:
  "utf16_scan u (str_len t) 0 0 t = Some b \<longleftrightarrow>
     (\<exists>p q. t = p @ q \<and> str_len p = b \<and>
        (str_len_utf16 p = u
         \<or> (str_len_utf16 p = u + 1 \<and> q \<noteq> [] \<and> p \<noteq> [] \<and> char_len_utf16 (last p) = 2)))"
  (is "?L \<longleftrightarrow> ?R")
proof
  assume ?L
  from utf16_scan_SomeD [OF this] show ?R by auto
next
  assume ?R
  then obtain p q where t: "t = p @ q" and b: "str_len p = b"
    and u: "str_len_utf16 p = u
      \<or> (str_len_utf16 p = u + 1 \<and> q \<noteq> [] \<and> p \<noteq> [] \<and> char_len_utf16 (last p) = 2)"
    by blast
  from u show ?L
  proof
    assume "str_len_utf16 p = u"
    with utf16_scan_prefix [of 0 p "str_len t" 0 q] t b show ?L by auto
  next
    assume *: "str_len_utf16 p = u + 1 \<and> q \<noteq> [] \<and> p \<noteq> [] \<and> char_len_utf16 (last p) = 2"
    then obtain p' c where p: "p = p' @ [c]" and c: "char_len_utf16 c = 2"
      by (metis append_butlast_last_id)
    with * have le: "0 + str_len_utf16 p' \<le> u" and eq: "u = str_len_utf16 p' + 1" by simp_all
    from * utf16_scan_unaligned [OF c, of "str_len_utf16 p'" "str_len t" "str_len p'" q]
    have "utf16_scan u (str_len t) (str_len_utf16 p') (str_len p') (c # q)
        = Some (str_len p' + char_len_utf8 c)"
      by (simp add: eq)
    with utf16_scan_skip [OF le, of "str_len t" 0 "c # q"] t p b show ?L by simp
  qed
qed

text \<open>
  C9. On a snapshot whose table is the table of its text, \<^verbatim>\<open>utf16_to_byte\<close> does not
  panic, and it returns a byte offset in exactly two cases: the offset is a character
  boundary of the text at the given UTF-16 offset; or the given UTF-16 offset lies
  inside a character of two UTF-16 units that is not the last of the text, and the
  byte offset is the boundary after that character. An offset inside the last
  character, like one beyond the text, has no result.
\<close>

theorem utf16_to_byte_correct:
  assumes "source_inv s"
  shows "no_panic (utf16_to_byte s u)
    \<and> (utf16_to_byte s u = Inr (Some b) \<longleftrightarrow>
        (\<exists>p q. repr_text s = p @ q \<and> str_len p = b \<and>
           (str_len_utf16 p = u
            \<or> (str_len_utf16 p = u + 1 \<and> q \<noteq> [] \<and> p \<noteq> [] \<and> char_len_utf16 (last p) = 2))))"
  by (simp add: utf16_to_byte_inv [OF assms] utf16_scan_Some_iff)

theorem utf16_to_byte_correct_witness:
  "source_inv (snapshot [102, 0x1F49B, 103, 0x1F49B])
   \<and> no_panic (utf16_to_byte (snapshot [102, 0x1F49B, 103, 0x1F49B]) 2)
   \<and> utf16_to_byte (snapshot [102, 0x1F49B, 103, 0x1F49B]) 3 = Inr (Some 5)
   \<and> utf16_to_byte (snapshot [102, 0x1F49B, 103, 0x1F49B]) 2 = Inr (Some 5)
   \<and> utf16_to_byte (snapshot [102, 0x1F49B, 103, 0x1F49B]) 5 = Inr None
   \<and> utf16_to_byte (snapshot [102, 0x1F49B, 103, 0x1F49B]) 6 = Inr (Some 10)"
proof -
  let ?s = "snapshot [102, 0x1F49B, 103, 0x1F49B]"
  have 1: "source_inv ?s" by simp
  have "\<exists>p q. repr_text ?s = p @ q \<and> str_len p = 5 \<and>
      (str_len_utf16 p = 2
       \<or> (str_len_utf16 p = 2 + 1 \<and> q \<noteq> [] \<and> p \<noteq> [] \<and> char_len_utf16 (last p) = 2))"
    by (intro exI [of _ "[102, 0x1F49B]"] exI [of _ "[103, 0x1F49B]"])
      (simp add: char_len_utf8_def char_len_utf16_def)
  with utf16_to_byte_correct [OF 1, of 2 5] have 2: "utf16_to_byte ?s 2 = Inr (Some 5)"
    and 0: "no_panic (utf16_to_byte ?s 2)" by simp_all
  have 3: "utf16_to_byte ?s 3 = Inr (Some 5)" "utf16_to_byte ?s 5 = Inr None"
    "utf16_to_byte ?s 6 = Inr (Some 10)"
    by (simp_all add: utf16_to_byte_inv char_len_utf8_def char_len_utf16_def)
  from 0 1 2 3 show ?thesis by simp
qed

text \<open>
  On a snapshot whose table is the table of its text, the column of a character
  boundary is the number of characters between the start of its line and the
  boundary: characters, not bytes and not UTF-16 units.
\<close>

theorem byte_to_column_counts_chars:
  assumes "source_inv s" and "repr_text s = p @ q"
  shows "\<exists>i p0 m. byte_to_line s (str_len p) = Inr (Some i)
    \<and> line_to_byte s i = Some (str_len p0) \<and> p = p0 @ m
    \<and> byte_to_column s (str_len p) = Inr (Some (length m))"
proof -
  from assms obtain p0 m where "p = p0 @ m"
    and "line_to_byte s (line_at (p @ q) (str_len p)) = Some (str_len p0)"
    and "byte_to_column s (str_len p) = Inr (Some (length m))"
    by (rule byte_to_column_prefix)
  moreover from assms
  have "byte_to_line s (str_len p) = Inr (Some (line_at (p @ q) (str_len p)))"
    by (simp add: byte_to_line_inv)
  ultimately show ?thesis by blast
qed

theorem byte_to_column_counts_chars_witness:
  "source_inv (snapshot [LF, 228, 0x1F49B, 103])
   \<and> repr_text (snapshot [LF, 228, 0x1F49B, 103]) = [LF, 228, 0x1F49B] @ [103]
   \<and> str_len [LF, 228, 0x1F49B] = 7
   \<and> byte_to_column (snapshot [LF, 228, 0x1F49B, 103]) 7 = Inr (Some 2)"
proof -
  let ?s = "snapshot [LF, 228, 0x1F49B, 103]"
  have 1: "source_inv ?s" by simp
  have 2: "repr_text ?s = [LF, 228, 0x1F49B] @ [103]" by simp
  have 3: "str_len [LF, 228, 0x1F49B] = 7" by (simp add: char_len_utf8_def)
  from byte_to_column_counts_chars [OF 1 2] obtain i p0 m where
    "byte_to_line ?s 7 = Inr (Some i)" "line_to_byte ?s i = Some (str_len p0)"
    "[LF, 228, 0x1F49B] = p0 @ m" "byte_to_column ?s 7 = Inr (Some (length m))"
    unfolding 3 by blast
  moreover have "byte_to_line ?s 7 = Inr (Some 1)" "line_to_byte ?s 1 = Some 1"
    by (simp_all add: eval_query)
  ultimately have "str_len p0 = 1" "[LF, 228, 0x1F49B] = p0 @ m"
    "byte_to_column ?s 7 = Inr (Some (length m))"
    by simp_all
  moreover from this have "p0 = [LF]"
    using prefix_str_len_unique [of p0 m "[LF]" "[228, 0x1F49B]"] by simp
  ultimately have "byte_to_column ?s 7 = Inr (Some 2)" by auto
  with 1 2 3 show ?thesis by simp
qed

text \<open>
  C29. On a snapshot whose table is the table of its text, the ranges of the lines
  tile the text: every line of the table has a range that can be sliced out of the
  text, the first range starts at zero, each range ends where the next line starts and
  is not empty, and the last range ends at the end of the text.
\<close>

theorem line_ranges_tile:
  assumes "source_inv s" and "i < len_lines s"
  shows "\<exists>a e l. line_to_range s i = Some (a, e) \<and> get s (a, e) = Some l \<and> a + str_len l = e
    \<and> (if i = 0 then a = 0 else True)
    \<and> (if Suc i < len_lines s then line_to_byte s (Suc i) = Some e \<and> a < e
        else e = len_bytes s)"
proof -
  let ?t = "repr_text s"
  from assms have n: "len_lines s = length (lines ?t)" and i: "i < length (lines ?t)"
    by (simp_all add: len_lines_def source_inv_def)
  from assms(1) i obtain p m q where t: "?t = p @ m @ q"
    and r: "line_to_range s i = Some (str_len p, str_len p + str_len m)"
    and li: "lines ?t ! i = entry 0 0 p"
    and nx: "if Suc i < length (lines ?t)
         then lines ?t ! Suc i = entry 0 0 (p @ m) \<and> m \<noteq> [] else q = []"
    by (rule line_to_range_inv)
  have g: "get s (str_len p, str_len p + str_len m) = Some m"
    by (simp add: get_def source_text_def t)
  have z: "str_len p = 0" if "i = 0"
    using li that by (simp add: lines_eq entry_def)
  have "if Suc i < len_lines s
        then line_to_byte s (Suc i) = Some (str_len p + str_len m) \<and> str_len p < str_len p + str_len m
        else str_len p + str_len m = len_bytes s"
    using nx n assms(1)
    by (auto simp: line_to_byte_def source_inv_def len_bytes_def source_text_def t
        simp flip: str_len_eq_0_iff)
  with r g z show ?thesis by auto
qed

theorem line_ranges_tile_witness:
  "source_inv (snapshot [97, LF, 228, CR, LF, 98]) \<and> 1 < len_lines (snapshot [97, LF, 228, CR, LF, 98])
   \<and> line_to_range (snapshot [97, LF, 228, CR, LF, 98]) 1 = Some (2, 6)
   \<and> (\<exists>a e l. line_to_range (snapshot [97, LF, 228, CR, LF, 98]) 1 = Some (a, e)
        \<and> get (snapshot [97, LF, 228, CR, LF, 98]) (a, e) = Some l \<and> a + str_len l = e
        \<and> line_to_byte (snapshot [97, LF, 228, CR, LF, 98]) 2 = Some e \<and> a < e)"
proof -
  let ?s = "snapshot [97, LF, 228, CR, LF, 98]"
  have 1: "source_inv ?s" by simp
  have 2: "1 < len_lines ?s" by (simp add: eval_query)
  have 3: "Suc 1 < len_lines ?s" by (simp add: eval_query)
  have 4: "line_to_range ?s 1 = Some (2, 6)" by (simp add: eval_query)
  from line_ranges_tile [OF 1 2] 1 2 3 4 show ?thesis by (auto simp: numeral_2_eq_2)
qed

text \<open>
  C28. On a snapshot whose table is the table of its text, \<^verbatim>\<open>line_column_to_byte\<close>
  on a line of the table returns the offset reached by advancing over the given number
  of characters of the line, and a column beyond the characters of the line is not
  rejected: the result is then the end of the range of the line.
\<close>

theorem line_column_to_byte_clamps:
  assumes "source_inv s" and "i < len_lines s"
  shows "\<exists>a e l. line_to_range s i = Some (a, e) \<and> get s (a, e) = Some l
    \<and> line_column_to_byte s i c = Some (a + str_len (take c l))
    \<and> (if length l \<le> c then line_column_to_byte s i c = Some e else True)"
proof -
  from assms(2) have i: "i < length (lines (repr_text s))"
    using assms(1) by (simp add: len_lines_def source_inv_def)
  from assms(1) i obtain p m q where t: "repr_text s = p @ m @ q"
    and r: "line_to_range s i = Some (str_len p, str_len p + str_len m)"
    by (rule line_to_range_inv)
  have g: "get s (str_len p, str_len p + str_len m) = Some m"
    by (simp add: get_def source_text_def t)
  from r g have "line_column_to_byte s i c = Some (str_len p + str_len (take c m))"
    by (simp add: line_column_to_byte_def str_len_take_drop)
  with r g show ?thesis by auto
qed

theorem line_column_to_byte_clamps_witness:
  "source_inv (snapshot [97, LF, 228, CR, LF, 98]) \<and> 1 < len_lines (snapshot [97, LF, 228, CR, LF, 98])
   \<and> line_to_range (snapshot [97, LF, 228, CR, LF, 98]) 1 = Some (2, 6)
   \<and> line_column_to_byte (snapshot [97, LF, 228, CR, LF, 98]) 1 1 = Some 4
   \<and> line_column_to_byte (snapshot [97, LF, 228, CR, LF, 98]) 1 100 = Some 6"
proof -
  let ?s = "snapshot [97, LF, 228, CR, LF, 98]"
  have 1: "source_inv ?s" by simp
  have 2: "1 < len_lines ?s" by (simp add: eval_query)
  have 4: "line_to_range ?s 1 = Some (2, 6)" by (simp add: eval_query)
  have 5: "get ?s (2, 6) = Some [228, CR, LF]"
    by (simp add: eval_query char_len_utf8_def)
  from line_column_to_byte_clamps [OF 1 2, of 1] line_column_to_byte_clamps [OF 1 2, of 100]
    1 2 4 5
  show ?thesis by (auto simp: char_len_utf8_def)
qed

text \<open>
  C27. On a snapshot whose table is the table of its text, no position query panics,
  whatever its argument: the subtraction after the binary search does not overflow,
  the slices are on character boundaries, and the table has a last record.
\<close>

theorem queries_no_panic:
  assumes "source_inv s"
  shows "no_panic (byte_to_line s b) \<and> no_panic (byte_to_utf16 s b)
    \<and> no_panic (byte_to_column s b) \<and> no_panic (utf16_to_byte s u) \<and> no_panic (len_utf16 s)"
  using byte_to_column_inv [OF assms, of b]
  by (auto simp: byte_to_line_inv [OF assms] byte_to_utf16_inv [OF assms]
      utf16_to_byte_inv [OF assms] len_utf16_inv [OF assms])

theorem queries_no_panic_witness:
  "source_inv (snapshot [97, CR, LF, 98])
   \<and> no_panic (byte_to_line (snapshot [97, CR, LF, 98]) 9)
   \<and> no_panic (byte_to_utf16 (snapshot [97, CR, LF, 98]) 9)
   \<and> no_panic (byte_to_column (snapshot [97, CR, LF, 98]) 9)
   \<and> no_panic (utf16_to_byte (snapshot [97, CR, LF, 98]) 9)
   \<and> no_panic (len_utf16 (snapshot [97, CR, LF, 98]))"
  using queries_no_panic [of "snapshot [97, CR, LF, 98]" 9 9] by simp

text \<open>
  C30. On a snapshot whose table is the table of its text, the queries signal absence
  where they have no answer: a byte offset beyond the text has no line; a byte offset
  that is not on a character boundary has no UTF-16 offset and no column; a UTF-16
  offset beyond the text has no byte offset; a line index beyond the table has no
  start, no range and no position at any column.
\<close>

theorem queries_absent:
  assumes "source_inv s"
  shows "(if len_bytes s < b then byte_to_line s b = Inr None else True)
    \<and> (if is_char_boundary (repr_text s) b then True
        else byte_to_utf16 s b = Inr None \<and> byte_to_column s b = Inr None)
    \<and> (if str_len_utf16 (repr_text s) < u then utf16_to_byte s u = Inr None else True)
    \<and> (if len_lines s \<le> i
        then line_to_byte s i = None \<and> line_to_range s i = None
          \<and> line_column_to_byte s i c = None
        else True)"
proof -
  have col: "byte_to_column s b = Inr None" if "\<not> is_char_boundary (repr_text s) b"
  proof (cases "b \<le> str_len (repr_text s)")
    case True
    with assms that show ?thesis
      by (simp add: byte_to_column_def byte_to_line_inv line_to_byte_def get_def
          source_text_def source_inv_def str_get_not_boundary)
  next
    case False
    with assms show ?thesis by (simp add: byte_to_column_def byte_to_line_inv)
  qed
  have u: "utf16_to_byte s u = Inr None" if "str_len_utf16 (repr_text s) < u"
    using that by (simp add: utf16_to_byte_inv [OF assms] utf16_scan_beyond)
  from col u show ?thesis
    by (simp add: byte_to_line_inv [OF assms] byte_to_utf16_not_boundary [OF assms]
        len_bytes_def source_text_def len_lines_def line_to_byte_def line_to_range_def
        line_column_to_byte_def)
qed

theorem queries_absent_witness:
  "source_inv (snapshot [228, LF, 98])
   \<and> len_bytes (snapshot [228, LF, 98]) < 5 \<and> \<not> is_char_boundary (repr_text (snapshot [228, LF, 98])) 1
   \<and> str_len_utf16 (repr_text (snapshot [228, LF, 98])) < 4 \<and> len_lines (snapshot [228, LF, 98]) \<le> 2
   \<and> byte_to_line (snapshot [228, LF, 98]) 5 = Inr None
   \<and> byte_to_utf16 (snapshot [228, LF, 98]) 1 = Inr None
   \<and> byte_to_column (snapshot [228, LF, 98]) 1 = Inr None
   \<and> utf16_to_byte (snapshot [228, LF, 98]) 4 = Inr None
   \<and> line_to_range (snapshot [228, LF, 98]) 2 = None
   \<and> line_column_to_byte (snapshot [228, LF, 98]) 2 0 = None"
proof -
  let ?s = "snapshot [228, LF, 98]"
  have h: "source_inv ?s" "len_bytes ?s < 5" "\<not> is_char_boundary (repr_text ?s) 1"
    "str_len_utf16 (repr_text ?s) < 4" "len_lines ?s \<le> 2"
    by (simp_all add: eval_query is_char_boundary_def)
  from queries_absent [OF h(1), of 5 4 2 0] queries_absent [OF h(1), of 1 4 2 0] h
  show ?thesis by simp
qed

text \<open>
  On a snapshot whose table is the table of its text, the three lengths are those
  of the text: \<^verbatim>\<open>len_utf16\<close>, computed from the last record of the table and the text
  after it, is the UTF-16 length of the whole text; \<^verbatim>\<open>len_lines\<close> is one more than
  the number of terminators, \<^verbatim>\<open>\r\n\<close> counted once; \<^verbatim>\<open>len_bytes\<close> is the length in bytes.
\<close>

theorem lengths_correct:
  assumes "source_inv s"
  shows "len_utf16 s = Inr (str_len_utf16 (repr_text s))
    \<and> len_lines s + crlf_pairs (repr_text s) = Suc (length (filter is_newline (repr_text s)))
    \<and> len_bytes s = str_len (repr_text s)"
  using assms
  by (simp add: len_utf16_inv len_lines_def len_bytes_def source_text_def source_inv_def
      lines_eq length_line_starts)

theorem lengths_correct_witness:
  "source_inv (snapshot [0x1F49B, CR, LF, 228, CR])
   \<and> len_utf16 (snapshot [0x1F49B, CR, LF, 228, CR]) = Inr 6
   \<and> len_lines (snapshot [0x1F49B, CR, LF, 228, CR]) = 3
   \<and> len_bytes (snapshot [0x1F49B, CR, LF, 228, CR]) = 9"
  using lengths_correct [of "snapshot [0x1F49B, CR, LF, 228, CR]"]
  by (simp add: char_len_utf8_def char_len_utf16_def is_newline_def)

text \<open>
  The hash of a source takes in everything that distinguishes two sources: two
  snapshots whose tables are the tables of their texts feed the same sequence to the
  hasher exactly when they are equal, although the table is not hashed.
\<close>

theorem source_hash_determines:
  assumes "source_inv s" and "source_inv s'"
  shows "source_hash s = source_hash s' \<longleftrightarrow> s = s'"
  using assms by (cases s; cases s') (auto simp: source_hash_def source_inv_def)

theorem source_hash_determines_witness:
  "source_inv (snapshot [97, LF]) \<and> source_inv (snapshot [97, CR])
   \<and> source_hash (snapshot [97, LF]) \<noteq> source_hash (snapshot [97, CR])
   \<and> snapshot [97, LF] \<noteq> snapshot [97, CR]"
  using source_hash_determines [of "snapshot [97, LF]" "snapshot [97, CR]"]
  by (simp add: source_hash_def)

text \<open>
  What \<^verbatim>\<open>impl Debug\<close> prints tells two snapshots apart exactly when the paths of their
  identities differ: the text, the tree and the table do not show.
\<close>

lemma fmt_eq_iff:
  "fmt d s = fmt d s' \<longleftrightarrow> d (source_id s) = d (source_id s')"
  by (simp add: fmt_def)


end
