(* ===== verification/Source_Edit.thy ===== *)
theory Source_Edit
  imports Source
begin

text \<open>
  The operations of \<^verbatim>\<open>source.rs\<close> that build or change a snapshot: \<^verbatim>\<open>new\<close>,
  \<^verbatim>\<open>detached\<close>, \<^verbatim>\<open>synthesized\<close>, \<^verbatim>\<open>replace\<close> and \<^verbatim>\<open>edit\<close>. Each is the whole method:
  every write to the text, the line table and the tree, in the order of the code, with
  the panics of its \<^verbatim>\<open>unwrap\<close>s and slices as results. \<^verbatim>\<open>Arc::make_mut\<close> gives the
  method a snapshot of its own, so here an operation takes a snapshot and returns the
  new one.
\<close>

section \<open>Construction and replacement\<close>

text \<open>\<^verbatim>\<open>root.numberize(id, Span::FULL).unwrap()\<close>.\<close>

definition numberize_unwrap ::
  "('n, 'e, 'm, 'l) syntax_ops \<Rightarrow> 'n \<Rightarrow> file_id \<Rightarrow> 'n result" where
  "numberize_unwrap ops node fid =
     (case numberize ops node fid of None \<Rightarrow> Inl Unwrap_Err | Some node' \<Rightarrow> Inr node')"

definition new :: "('n, 'e, 'm, 'l) syntax_ops \<Rightarrow> file_id \<Rightarrow> rstr \<Rightarrow> 'n repr result" where
  "new ops fid text =
     rbind (numberize_unwrap ops (parse ops text) fid) (\<lambda>node.
     Inr \<lparr>repr_id = fid, repr_text = text, repr_root = node, repr_lines = lines text\<rparr>)"

definition detached :: "('n, 'e, 'm, 'l) syntax_ops \<Rightarrow> rstr \<Rightarrow> 'n repr result" where
  "detached ops text = new ops Detached text"

definition synthesized :: "('n, 'e, 'm, 'l) syntax_ops \<Rightarrow> rstr \<Rightarrow> span \<Rightarrow> 'n repr" where
  "synthesized ops text sp =
     \<lparr>repr_id = Detached, repr_text = text,
      repr_root = synthesize ops (parse ops text) sp, repr_lines = lines text\<rparr>"

definition replace :: "('n, 'e, 'm, 'l) syntax_ops \<Rightarrow> 'n repr \<Rightarrow> rstr \<Rightarrow> 'n repr result" where
  "replace ops s text =
     (let inner = s\<lparr>repr_text := text\<rparr>;
          inner = inner\<lparr>repr_lines := lines (repr_text inner)\<rparr>
      in rbind (numberize_unwrap ops (parse ops (repr_text inner)) (repr_id inner)) (\<lambda>node.
         Inr (inner\<lparr>repr_root := node\<rparr>)))"

section \<open>The incremental edit\<close>

text \<open>
  \<^verbatim>\<open>edit(replace, with)\<close>, step by step: the UTF-16 offset and the line of the start
  of the range, read before anything changes; the splice of the text; the truncation of
  the line table after the line of the start; the removal of one more entry when a
  \<^verbatim>\<open>\r\<close> before the start meets a \<^verbatim>\<open>\n\<close> at the head of the replacement; the scan of the
  text from the start on; and the call of the reparser, whose range is the result.
\<close>

definition edit ::
  "('n, 'e, 'm, 'l) syntax_ops \<Rightarrow> 'n repr \<Rightarrow> byte_range \<Rightarrow> rstr \<Rightarrow> ('n repr \<times> byte_range) result"
  where
  "edit ops s r w =
     (let start_byte = fst r in
      rbind (rbind (byte_to_utf16 s start_byte) unwrap) (\<lambda>start_utf16.
      rbind (rbind (byte_to_line s start_byte) unwrap) (\<lambda>line.
      rbind (replace_range (repr_text s) (fst r) (snd r) w) (\<lambda>text.
      let ls = take (line + 1) (repr_lines s) in
      rbind (str_to text start_byte) (\<lambda>head.
      let ls = (if ends_with head CR \<and> starts_with w LF then butlast ls else ls) in
      rbind (str_from text start_byte) (\<lambda>tail.
      let ls = ls @ lines_from start_byte start_utf16 tail;
          (node, reparsed) = reparse ops (repr_root s) text r (str_len w)
      in Inr (s\<lparr>repr_text := text, repr_lines := ls, repr_root := node\<rparr>, reparsed)))))))"

lemmas [edit_defs] =
  numberize_unwrap_def new_def detached_def synthesized_def replace_def edit_def

section \<open>Construction establishes the invariant\<close>

lemma new_eq:
  "new ops fid t =
     (case numberize ops (parse ops t) fid of
        None \<Rightarrow> Inl Unwrap_Err
      | Some node \<Rightarrow> Inr \<lparr>repr_id = fid, repr_text = t, repr_root = node, repr_lines = lines t\<rparr>)"
  by (simp add: new_def numberize_unwrap_def split: option.split)

lemma replace_eq:
  "replace ops s t =
     (case numberize ops (parse ops t) (repr_id s) of
        None \<Rightarrow> Inl Unwrap_Err
      | Some node \<Rightarrow> Inr (s\<lparr>repr_text := t, repr_lines := lines t, repr_root := node\<rparr>))"
  by (simp add: replace_def numberize_unwrap_def Let_def split: option.split)

section \<open>What the edit computes\<close>

text \<open>
  The line table that \<^verbatim>\<open>edit\<close> builds, on a text split at the range: \<open>p\<close> precedes the
  range, \<open>m\<close> is replaced by \<open>w\<close>, \<open>q\<close> follows.
\<close>

definition edit_lines :: "rstr \<Rightarrow> rstr \<Rightarrow> rstr \<Rightarrow> rstr \<Rightarrow> line list" where
  "edit_lines p m q w =
     (let ls = lines_upto p (m @ q);
          ls = (if ends_with p CR \<and> starts_with w LF then butlast ls else ls)
      in ls @ line_starts (str_len p) (str_len_utf16 p) (w @ q))"

text \<open>
  The edits on which the incremental table is right. When a \<^verbatim>\<open>\r\<close> precedes the range,
  the old text has a \<^verbatim>\<open>\n\<close> at the start of the range exactly when the new text has one
  there that does not come from the replacement.
\<close>

definition crlf_agree :: "rstr \<Rightarrow> rstr \<Rightarrow> rstr \<Rightarrow> rstr \<Rightarrow> bool" where
  "crlf_agree p m q w \<longleftrightarrow>
     (if ends_with p CR then starts_with (m @ q) LF = (w = [] \<and> starts_with q LF) else True)"

lemma edit_split:
  assumes "source_inv s" and "repr_text s = p @ m @ q"
  shows "edit ops s (str_len p, str_len p + str_len m) w =
    (let r = (str_len p, str_len p + str_len m);
         res = reparse ops (repr_root s) (p @ w @ q) r (str_len w)
     in Inr (s\<lparr>repr_text := p @ w @ q, repr_lines := edit_lines p m q w, repr_root := fst res\<rparr>,
             snd res))"
proof -
  have 1: "byte_to_utf16 s (str_len p) = Inr (Some (str_len_utf16 p))"
    using assms by (rule byte_to_utf16_prefix)
  have 2: "byte_to_line s (str_len p) = Inr (Some (line_at (p @ m @ q) (str_len p)))"
    using assms by (simp add: byte_to_line_inv)
  have 3: "take (Suc (line_at (p @ m @ q) (str_len p))) (repr_lines s) = lines_upto p (m @ q)"
    using assms take_line_at [of p "m @ q"] by (simp add: source_inv_def)
  show ?thesis
    using assms(2)
    by (simp add: edit_def 1 2 3 lines_from_eq edit_lines_def Let_def split_beta)
qed

lemma edit_lines_correct_iff:
  "edit_lines p m q w = lines (p @ w @ q) \<longleftrightarrow> crlf_agree p m q w"
proof -
  have "edit_lines p m q w = lines (p @ w @ q) \<longleftrightarrow>
      (if ends_with p CR \<and> starts_with w LF then butlast (lines_upto p (m @ q))
       else lines_upto p (m @ q)) = lines_upto p (w @ q)"
    by (simp add: edit_lines_def lines_append_upto [of p "w @ q"] Let_def)
  also have "\<dots> \<longleftrightarrow> crlf_agree p m q w"
  proof (cases "ends_with p CR")
    case False
    then show ?thesis by (simp add: lines_upto_def crlf_agree_def)
  next
    case True
    note bl = butlast_iter_neq [OF length_lines_ends_CR [OF True]]
    show ?thesis
      using True bl bl [symmetric]
      by (cases w) (auto simp: lines_upto_def crlf_agree_def)
  qed
  finally show ?thesis .
qed

text \<open>A valid range splits the text.\<close>

lemma range_split:
  assumes "a \<le> e" and "is_char_boundary t a" and "is_char_boundary t e"
  obtains p m q where "t = p @ m @ q" and "a = str_len p" and "e = str_len p + str_len m"
proof -
  from assms(2) obtain p r where 1: "t = p @ r" "str_len p = a"
    unfolding is_char_boundary_iff by blast
  from assms(3) obtain p' q where 2: "t = p' @ q" "str_len p' = e"
    unfolding is_char_boundary_iff by blast
  from 1 2 assms(1) have "p @ r = p' @ q" "str_len p \<le> str_len p'" by simp_all
  then obtain m where "p' = p @ m" "r = m @ q"
    using prefix_str_len_le by blast
  with 1 2 that [of p m q] show thesis by simp
qed

lemma edit_InrD:
  assumes "edit ops s (a, e) w = Inr x"
  shows "a \<le> e \<and> is_char_boundary (repr_text s) a \<and> is_char_boundary (repr_text s) e"
proof -
  from assms obtain t where "replace_range (repr_text s) a e w = Inr t"
    by (auto simp: edit_def Let_def rbind_eq_Inr_iff)
  then have "no_panic (replace_range (repr_text s) a e w)" by simp
  then show ?thesis by (simp only: replace_range_no_panic_iff)
qed

lemma edit_start_not_boundary:
  assumes "source_inv s" and "\<not> is_char_boundary (repr_text s) a"
  shows "edit ops s (a, e) w = Inl Unwrap_None"
  using assms by (simp add: edit_def byte_to_utf16_not_boundary)

section \<open>A syntax tree that is the text\<close>

text \<open>
  The least instance of the interface to the syntax tree: the tree of a text is the
  text, numbering changes nothing, and the reparser parses the whole text again and
  reports all of it. It makes the operations that take the interface run on concrete
  snapshots; \<^verbatim>\<open>detached\<close> builds \<open>snapshot\<close> over it.
\<close>

definition text_ops :: "(rstr, unit, rstr, unit) syntax_ops" where
  "text_ops =
     \<lparr>parse = (\<lambda>t. t), numberize = (\<lambda>node fid. Some node), synthesize = (\<lambda>node sp. node),
      errors = (\<lambda>node. []), cast = Some, find_node = (\<lambda>node sp. None),
      reparse = (\<lambda>node t r len. (t, (0, str_len t)))\<rparr>"

lemma detached_text_ops: "detached text_ops t = Inr (snapshot t)"
  by (simp add: detached_def new_eq text_ops_def snapshot_def)

text \<open>
  A parser whose numbering of a fresh tree succeeds. The numbering fails when a tree has
  more nodes than there are span numbers; the property separates what holds of
  \<^verbatim>\<open>Source\<close> from that limit.
\<close>

definition numbering_total :: "('n, 'e, 'm, 'l) syntax_ops \<Rightarrow> bool" where
  "numbering_total ops \<longleftrightarrow> (\<forall>node fid. numberize ops node fid \<noteq> None)"

lemma numbering_total_text_ops [simp]: "numbering_total text_ops"
  by (simp add: numbering_total_def text_ops_def)

lemma new_total:
  assumes "numbering_total ops"
  obtains node where
    "new ops fid t = Inr \<lparr>repr_id = fid, repr_text = t, repr_root = node, repr_lines = lines t\<rparr>"
proof -
  from assms obtain node where "numberize ops (parse ops t) fid = Some node"
    by (auto simp: numbering_total_def)
  then have "new ops fid t =
      Inr \<lparr>repr_id = fid, repr_text = t, repr_root = node, repr_lines = lines t\<rparr>"
    by (simp add: new_eq)
  then show thesis by (rule that)
qed

lemmas eval_edit =
  edit_lines_def lines_upto_def crlf_agree_def eval_lines

section \<open>Properties of the edit\<close>

text \<open>
  C1. On a snapshot whose line table is the table of its text, an edit of a range of
  character boundaries returns, and when the edit satisfies \<open>crlf_agree\<close> the new
  line table is the table of the new text built from scratch: the incremental update
  and the full rebuild agree, and the invariant holds again.
\<close>

theorem edit_preserves_inv:
  assumes "source_inv s" and "repr_text s = p @ m @ q" and "crlf_agree p m q w"
  shows "\<exists>s' r. edit ops s (str_len p, str_len p + str_len m) w = Inr (s', r)
    \<and> repr_text s' = p @ w @ q \<and> repr_lines s' = lines (p @ w @ q) \<and> source_inv s'"
  using assms edit_lines_correct_iff [of p m q w]
  by (simp add: edit_split [OF assms(1,2)] Let_def source_inv_def)

theorem edit_preserves_inv_witness:
  "source_inv (snapshot [97, 98, 99, LF, 100, 101, 102, CR])
   \<and> repr_text (snapshot [97, 98, 99, LF, 100, 101, 102, CR]) = [97, 98, 99, LF, 100, 101, 102, CR] @ [] @ []
   \<and> crlf_agree [97, 98, 99, LF, 100, 101, 102, CR] [] [] [LF, 103, 104, 105]
   \<and> (\<exists>s' r. edit text_ops (snapshot [97, 98, 99, LF, 100, 101, 102, CR])
          (str_len [97, 98, 99, LF, 100, 101, 102, CR], str_len [97, 98, 99, LF, 100, 101, 102, CR] + str_len [])
          [LF, 103, 104, 105] = Inr (s', r)
        \<and> repr_text s' = [97, 98, 99, LF, 100, 101, 102, CR] @ [LF, 103, 104, 105] @ []
        \<and> repr_lines s' = lines ([97, 98, 99, LF, 100, 101, 102, CR] @ [LF, 103, 104, 105] @ [])
        \<and> source_inv s')"
proof -
  let ?p = "[97, 98, 99, LF, 100, 101, 102, CR]" and ?w = "[LF, 103, 104, 105]"
  have 1: "source_inv (snapshot ?p)" by simp
  have 2: "repr_text (snapshot ?p) = ?p @ [] @ []" by simp
  have 3: "crlf_agree ?p [] [] ?w" by (simp add: crlf_agree_def ends_with_def starts_with_def)
  from edit_preserves_inv [OF 1 2 3, of text_ops] 1 2 3 show ?thesis by blast
qed

text \<open>
  C2. The incremental line table is right exactly for the edits that satisfy
  \<open>crlf_agree\<close>: an edit that starts between the two characters of a \<^verbatim>\<open>\r\n\<close> and
  keeps no \<^verbatim>\<open>\n\<close> there, or that starts after a lone \<^verbatim>\<open>\r\<close> and deletes up to a
  \<^verbatim>\<open>\n\<close> without inserting anything, leaves a table that differs from the table of the
  new text.
\<close>

theorem edit_index_exact:
  assumes "source_inv s" and "repr_text s = p @ m @ q"
    and "edit ops s (str_len p, str_len p + str_len m) w = Inr (s', r)"
  shows "source_inv s' \<longleftrightarrow> crlf_agree p m q w"
  using assms(3) edit_lines_correct_iff [of p m q w]
  by (auto simp: edit_split [OF assms(1,2)] Let_def source_inv_def)

theorem edit_index_exact_witness:
  "source_inv (snapshot [97, CR, LF, 98])
   \<and> repr_text (snapshot [97, CR, LF, 98]) = [97, CR] @ [] @ [LF, 98]
   \<and> edit text_ops (snapshot [97, CR, LF, 98]) (str_len [97, CR], str_len [97, CR] + str_len []) [120]
       = Inr (\<lparr>repr_id = Detached, repr_text = [97, CR, 120, LF, 98], repr_root = [97, CR, 120, LF, 98],
                repr_lines = [\<lparr>byte_idx = 0, utf16_idx = 0\<rparr>, \<lparr>byte_idx = 4, utf16_idx = 4\<rparr>]\<rparr>, (0, 5))
   \<and> (source_inv \<lparr>repr_id = Detached, repr_text = [97, CR, 120, LF, 98], repr_root = [97, CR, 120, LF, 98],
                repr_lines = [\<lparr>byte_idx = 0, utf16_idx = 0\<rparr>, \<lparr>byte_idx = 4, utf16_idx = 4\<rparr>]\<rparr>
        \<longleftrightarrow> crlf_agree [97, CR] [] [LF, 98] [120])
   \<and> \<not> crlf_agree [97, CR] [] [LF, 98] [120]"
proof -
  let ?s = "snapshot [97, CR, LF, 98]"
  let ?s' = "\<lparr>repr_id = Detached, repr_text = [97, CR, 120, LF, 98], repr_root = [97, CR, 120, LF, 98],
      repr_lines = [\<lparr>byte_idx = 0, utf16_idx = 0\<rparr>, \<lparr>byte_idx = 4, utf16_idx = 4\<rparr>]\<rparr>"
  have 1: "source_inv ?s" by simp
  have 2: "repr_text ?s = [97, CR] @ [] @ [LF, 98]" by simp
  have 3: "edit text_ops ?s (str_len [97, CR], str_len [97, CR] + str_len []) [120] = Inr (?s', (0, 5))"
    by (subst edit_split [OF 1 2]) (simp add: Let_def text_ops_def snapshot_def eval_edit)
  have 4: "\<not> crlf_agree [97, CR] [] [LF, 98] [120]"
    by (simp add: crlf_agree_def ends_with_def starts_with_def)
  from edit_index_exact [OF 1 2 3] 1 2 3 4 show ?thesis by blast
qed

text \<open>
  C25. Whatever the snapshot, an edit that returns has spliced the replacement into the
  text at the given range, has called the reparser once, with the old root, the whole
  new text, the range as given and the byte length of the replacement, has stored the
  reparser's tree and returned the reparser's range, and has kept the identity of the
  file.
\<close>

theorem edit_delegates:
  assumes "edit ops s (a, e) w = Inr (s', r)"
  shows "replace_range (repr_text s) a e w = Inr (repr_text s')
    \<and> (repr_root s', r) = reparse ops (repr_root s) (repr_text s') (a, e) (str_len w)
    \<and> repr_id s' = repr_id s"
  using assms
  by (auto simp: edit_def Let_def rbind_eq_Inr_iff split_beta)

theorem edit_delegates_witness:
  "edit text_ops (snapshot [97, 98, 99, LF]) (0, 0) [104, 105, LF]
     = Inr (snapshot [104, 105, LF, 97, 98, 99, LF], (0, 7))
   \<and> replace_range (repr_text (snapshot [97, 98, 99, LF])) 0 0 [104, 105, LF]
       = Inr (repr_text (snapshot [104, 105, LF, 97, 98, 99, LF]))
   \<and> (repr_root (snapshot [104, 105, LF, 97, 98, 99, LF]), (0, 7))
       = reparse text_ops (repr_root (snapshot [97, 98, 99, LF]))
           (repr_text (snapshot [104, 105, LF, 97, 98, 99, LF])) (0, 0) (str_len [104, 105, LF])
   \<and> repr_id (snapshot [104, 105, LF, 97, 98, 99, LF]) = repr_id (snapshot [97, 98, 99, LF])"
proof -
  let ?s = "snapshot [97, 98, 99, LF]"
  have 1: "source_inv ?s" by simp
  have 2: "repr_text ?s = [] @ [] @ [97, 98, 99, LF]" by simp
  have 3: "edit text_ops ?s (0, 0) [104, 105, LF]
      = Inr (snapshot [104, 105, LF, 97, 98, 99, LF], (0, 7))"
    using edit_split [OF 1 2, of text_ops "[104, 105, LF]"]
    by (simp add: Let_def text_ops_def snapshot_def eval_edit)
  from edit_delegates [OF 3] 3 show ?thesis by blast
qed

text \<open>
  C24. On a snapshot whose table is the table of its text, an edit returns exactly
  when its range is ordered and both ends lie on character boundaries of the text.
  Otherwise it panics, before anything is changed when the start is not a boundary
  (the \<^verbatim>\<open>unwrap\<close> of the UTF-16 offset), and in the splice of the text when the end is
  not a boundary or precedes the start.
\<close>

theorem edit_panics_iff:
  assumes "source_inv s"
  shows "(no_panic (edit ops s (a, e) w)
      \<longleftrightarrow> a \<le> e \<and> is_char_boundary (repr_text s) a \<and> is_char_boundary (repr_text s) e)
    \<and> (if is_char_boundary (repr_text s) a
        then (if a \<le> e \<and> is_char_boundary (repr_text s) e then True
              else edit ops s (a, e) w = Inl Str_Index)
        else edit ops s (a, e) w = Inl Unwrap_None)"
proof (cases "is_char_boundary (repr_text s) a")
  case False
  with assms show ?thesis by (simp add: edit_start_not_boundary)
next
  case a: True
  show ?thesis
  proof (cases "a \<le> e \<and> is_char_boundary (repr_text s) e")
    case True
    with a obtain p m q where "repr_text s = p @ m @ q" "a = str_len p" "e = str_len p + str_len m"
      using range_split [of a e "repr_text s"] by blast
    with assms a True show ?thesis by (simp add: edit_split Let_def)
  next
    case False
    then have "\<not> no_panic (replace_range (repr_text s) a e w)"
      by (simp add: replace_range_no_panic_iff)
    then have rr: "replace_range (repr_text s) a e w = Inl Str_Index"
      by (auto simp: replace_range_def split: if_splits option.splits)
    from a obtain p q where "repr_text s = p @ q" "str_len p = a"
      unfolding is_char_boundary_iff by blast
    with assms have "byte_to_utf16 s a = Inr (Some (str_len_utf16 p))"
      "byte_to_line s a = Inr (Some (line_at (repr_text s) a))"
      using byte_to_utf16_prefix [of s p q] by (auto simp: byte_to_line_inv)
    with rr a False show ?thesis by (simp add: edit_def)
  qed
qed

theorem edit_panics_iff_witness:
  "source_inv (snapshot [97, 228, 98])
   \<and> edit text_ops (snapshot [97, 228, 98]) (2, 3) [120] = Inl Unwrap_None
   \<and> edit text_ops (snapshot [97, 228, 98]) (1, 2) [120] = Inl Str_Index
   \<and> edit text_ops (snapshot [97, 228, 98]) (3, 1) [120] = Inl Str_Index
   \<and> edit text_ops (snapshot [97, 228, 98]) (5, 5) [120] = Inl Unwrap_None
   \<and> no_panic (edit text_ops (snapshot [97, 228, 98]) (1, 3) [120])"
proof -
  let ?s = "snapshot [97, 228, 98]"
  have 1: "source_inv ?s" by simp
  have b: "\<not> is_char_boundary (repr_text ?s) 2" "is_char_boundary (repr_text ?s) 1"
    "is_char_boundary (repr_text ?s) 3" "\<not> is_char_boundary (repr_text ?s) 5"
    by (simp_all add: is_char_boundary_def char_len_utf8_def)
  from edit_panics_iff [OF 1, of text_ops 2 3 "[120]"]
    edit_panics_iff [OF 1, of text_ops 1 2 "[120]"]
    edit_panics_iff [OF 1, of text_ops 3 1 "[120]"]
    edit_panics_iff [OF 1, of text_ops 5 5 "[120]"]
    edit_panics_iff [OF 1, of text_ops 1 3 "[120]"] 1 b
  show ?thesis by simp
qed

text \<open>
  Construction builds the table from scratch: \<^verbatim>\<open>new\<close> panics exactly when the
  numbering of the parsed tree fails, and otherwise returns a snapshot with the given
  identity and text, the numbered tree of the text and the table of the text;
  \<^verbatim>\<open>detached\<close> is \<^verbatim>\<open>new\<close> with the detached identity; \<^verbatim>\<open>synthesized\<close> never panics and
  stores the parsed tree with the given span on every node.
\<close>

theorem construction_establishes_inv:
  "(case new ops fid t of
      Inl p \<Rightarrow> p = Unwrap_Err \<and> numberize ops (parse ops t) fid = None
    | Inr s \<Rightarrow> source_inv s \<and> repr_id s = fid \<and> repr_text s = t
        \<and> numberize ops (parse ops t) fid = Some (repr_root s))
   \<and> detached ops t = new ops Detached t
   \<and> source_inv (synthesized ops t sp) \<and> repr_id (synthesized ops t sp) = Detached
   \<and> repr_text (synthesized ops t sp) = t
   \<and> repr_root (synthesized ops t sp) = synthesize ops (parse ops t) sp"
  by (simp add: new_eq detached_def synthesized_def source_inv_def split: option.split)

text \<open>
  A full replacement is a construction with the identity of the snapshot: it
  discards the old tree and the old table, whatever they were, so it restores the
  invariant even on a snapshot that had lost it.
\<close>

theorem replace_is_new:
  "replace ops s t = new ops (repr_id s) t
   \<and> (case replace ops s t of Inl p \<Rightarrow> True
       | Inr s' \<Rightarrow> source_inv s' \<and> repr_id s' = repr_id s \<and> repr_text s' = t)"
  by (cases s) (simp add: replace_eq new_eq source_inv_def split: option.split)

section \<open>Where the incremental table is wrong\<close>

text \<open>
  The table after an insertion that starts with \<^verbatim>\<open>\n\<close> between the two characters of
  a \<^verbatim>\<open>\r\n\<close> at the start of the text: the truncation had already dropped the line
  start after the \<^verbatim>\<open>\r\<close>, so the \<^verbatim>\<open>pop\<close> removes the record of offset zero.
\<close>

lemma edit_lines_crlf_head:
  "edit_lines [CR] [] (LF # q) (LF # w) = line_starts 1 1 (LF # w @ LF # q)"
  by (simp add: edit_lines_def lines_upto_def lines_eq line_break_def entry_def ends_with_def)

lemma search_above_all:
  assumes "sorted_wrt (<) (map key xs)" and "\<forall>x \<in> set xs. b < key x"
  shows "search_rank (binary_search_by_key xs b key) = Inl Sub_Overflow"
proof -
  from assms(2) have "rank (map key xs) b = 0"
    by (auto simp: rank_map filter_empty_conv not_le)
  then show ?thesis by (simp add: search_rank_by_key [OF assms(1)])
qed

text \<open>
  C7. An edit can leave a table on which the queries panic. On a text that starts
  with \<^verbatim>\<open>\r\n\<close>, inserting a text that starts with \<^verbatim>\<open>\n\<close> between the two characters
  returns normally, but the table it leaves has lost the record of offset zero, and
  afterwards \<^verbatim>\<open>byte_to_line\<close> and \<^verbatim>\<open>utf16_to_byte\<close> of offset zero, and with them
  \<^verbatim>\<open>byte_to_utf16\<close> and \<^verbatim>\<open>byte_to_column\<close>, panic in the subtraction after the
  binary search.
\<close>

theorem edit_crlf_breaks_queries:
  assumes "source_inv s" and "repr_text s = CR # LF # q"
    and "edit ops s (1, 1) (LF # w) = Inr (s', r)"
  shows "repr_text s' = CR # LF # w @ LF # q
    \<and> \<lparr>byte_idx = 0, utf16_idx = 0\<rparr> \<notin> set (repr_lines s')
    \<and> byte_to_line s' 0 = Inl Sub_Overflow \<and> utf16_to_byte s' 0 = Inl Sub_Overflow
    \<and> byte_to_utf16 s' 0 = Inl Sub_Overflow \<and> byte_to_column s' 0 = Inl Sub_Overflow"
proof -
  have t: "repr_text s = [CR] @ [] @ LF # q" using assms(2) by simp
  from assms(3) edit_split [OF assms(1) t, of ops "LF # w"]
  have s': "repr_text s' = CR # LF # w @ LF # q"
    "repr_lines s' = line_starts 1 1 (LF # w @ LF # q)"
    by (auto simp: Let_def edit_lines_crlf_head)
  have pos: "\<forall>l \<in> set (repr_lines s'). 0 < byte_idx l \<and> 0 < utf16_idx l"
    unfolding s' using line_starts_bounds by fastforce
  have sorted: "sorted_wrt (<) (map byte_idx (repr_lines s'))"
    "sorted_wrt (<) (map utf16_idx (repr_lines s'))"
    unfolding s' by (rule sorted_line_starts_byte sorted_line_starts_utf16)+
  have 1: "search_rank (binary_search_by_key (repr_lines s') 0 byte_idx) = Inl Sub_Overflow"
    using sorted(1) pos by (intro search_above_all) simp_all
  have 2: "search_rank (binary_search_by_key (repr_lines s') 0 utf16_idx) = Inl Sub_Overflow"
    using sorted(2) pos by (intro search_above_all) simp_all
  from pos have "\<lparr>byte_idx = 0, utf16_idx = 0\<rparr> \<notin> set (repr_lines s')" by force
  with 1 2 s'(1) show ?thesis
    by (simp add: byte_to_line_def utf16_to_byte_def byte_to_utf16_def byte_to_column_def)
qed

theorem edit_crlf_breaks_queries_witness:
  "source_inv (snapshot [CR, LF]) \<and> repr_text (snapshot [CR, LF]) = CR # LF # []
   \<and> edit text_ops (snapshot [CR, LF]) (1, 1) (LF # [])
       = Inr (\<lparr>repr_id = Detached, repr_text = [CR, LF, LF], repr_root = [CR, LF, LF],
                repr_lines = [\<lparr>byte_idx = 2, utf16_idx = 2\<rparr>, \<lparr>byte_idx = 3, utf16_idx = 3\<rparr>]\<rparr>,
              (0, 3))
   \<and> lines [CR, LF, LF] = [\<lparr>byte_idx = 0, utf16_idx = 0\<rparr>, \<lparr>byte_idx = 2, utf16_idx = 2\<rparr>,
        \<lparr>byte_idx = 3, utf16_idx = 3\<rparr>]
   \<and> byte_to_line \<lparr>repr_id = Detached, repr_text = [CR, LF, LF], repr_root = [CR, LF, LF],
        repr_lines = [\<lparr>byte_idx = 2, utf16_idx = 2\<rparr>, \<lparr>byte_idx = 3, utf16_idx = 3\<rparr>]\<rparr> 0
       = Inl Sub_Overflow"
proof -
  let ?s = "snapshot [CR, LF]"
  let ?s' = "\<lparr>repr_id = Detached, repr_text = [CR, LF, LF], repr_root = [CR, LF, LF],
        repr_lines = [\<lparr>byte_idx = 2, utf16_idx = 2\<rparr>, \<lparr>byte_idx = 3, utf16_idx = 3\<rparr>]\<rparr>"
  have 1: "source_inv ?s" by simp
  have 2: "repr_text ?s = CR # LF # []" by simp
  have t: "repr_text ?s = [CR] @ [] @ [LF]" by simp
  have 3: "edit text_ops ?s (1, 1) (LF # []) = Inr (?s', (0, 3))"
    using edit_split [OF 1 t, of text_ops "[LF]"]
    by (simp add: Let_def text_ops_def snapshot_def eval_edit)
  have 4: "lines [CR, LF, LF] = [\<lparr>byte_idx = 0, utf16_idx = 0\<rparr>, \<lparr>byte_idx = 2, utf16_idx = 2\<rparr>,
        \<lparr>byte_idx = 3, utf16_idx = 3\<rparr>]"
    by (simp add: eval_lines)
  from edit_crlf_breaks_queries [OF 1 2 3] 1 2 3 4 show ?thesis by blast
qed

end
