(* ===== verification/Source_Tests.thy ===== *)
theory Source_Tests
  imports Source_Edit
begin

text \<open>
  The unit tests of \<^verbatim>\<open>source.rs\<close> (module \<^verbatim>\<open>tests\<close>) as boolean functions: a test is
  true when every assertion of it holds and no \<^verbatim>\<open>unwrap\<close> of it panics. The tests build
  their sources with \<^verbatim>\<open>Source::detached\<close>, so they take the interface to the syntax
  tree as a parameter; they compare texts and line tables only. The model passes every
  test, for every parser whose numbering succeeds; and the helper of the edit test is
  characterised for all its inputs, which says what the test can and cannot find.
\<close>

section \<open>The tests\<close>

text \<open>
  \<^verbatim>\<open>TEST\<close>, as code points: a-umlaut, tab, \<^verbatim>\<open>cde\<close>, line feed, \<^verbatim>\<open>f\<close>, the yellow heart
  U+1F49B, \<^verbatim>\<open>g\<close>, carriage return and line feed, \<^verbatim>\<open>hi\<close>, carriage return, \<^verbatim>\<open>jkl\<close>.
\<close>

definition TEST :: rstr where
  "TEST = [0xE4, 9, 99, 100, 101, LF, 102, 0x1F49B, 103, CR, LF, 104, 105, CR, 106, 107, 108]"

text \<open>A test body that runs on a source, failing when the source cannot be built.\<close>

definition with_source :: "'n repr result \<Rightarrow> ('n repr \<Rightarrow> bool) \<Rightarrow> bool" where
  "with_source r body = (case r of Inl _ \<Rightarrow> False | Inr source \<Rightarrow> body source)"

definition test_source_file_new :: "('n, 'e, 'm, 'l) syntax_ops \<Rightarrow> bool" where
  "test_source_file_new ops =
     with_source (detached ops TEST) (\<lambda>source.
       repr_lines source =
         [\<lparr>byte_idx = 0, utf16_idx = 0\<rparr>, \<lparr>byte_idx = 7, utf16_idx = 6\<rparr>,
          \<lparr>byte_idx = 15, utf16_idx = 12\<rparr>, \<lparr>byte_idx = 18, utf16_idx = 15\<rparr>])"

definition test_source_file_pos_to_line :: "('n, 'e, 'm, 'l) syntax_ops \<Rightarrow> bool" where
  "test_source_file_pos_to_line ops =
     with_source (detached ops TEST) (\<lambda>source.
       byte_to_line source 0 = Inr (Some 0)
       \<and> byte_to_line source 2 = Inr (Some 0)
       \<and> byte_to_line source 6 = Inr (Some 0)
       \<and> byte_to_line source 7 = Inr (Some 1)
       \<and> byte_to_line source 8 = Inr (Some 1)
       \<and> byte_to_line source 12 = Inr (Some 1)
       \<and> byte_to_line source 21 = Inr (Some 3)
       \<and> byte_to_line source 22 = Inr None)"

definition test_source_file_pos_to_column :: "('n, 'e, 'm, 'l) syntax_ops \<Rightarrow> bool" where
  "test_source_file_pos_to_column ops =
     with_source (detached ops TEST) (\<lambda>source.
       byte_to_column source 0 = Inr (Some 0)
       \<and> byte_to_column source 2 = Inr (Some 1)
       \<and> byte_to_column source 6 = Inr (Some 5)
       \<and> byte_to_column source 7 = Inr (Some 0)
       \<and> byte_to_column source 8 = Inr (Some 1)
       \<and> byte_to_column source 12 = Inr (Some 2))"

text \<open>The helper \<^verbatim>\<open>roundtrip\<close> of \<^verbatim>\<open>test_source_file_utf16\<close>.\<close>

definition roundtrip_utf16_test :: "'n repr \<Rightarrow> nat \<Rightarrow> nat \<Rightarrow> bool" where
  "roundtrip_utf16_test source byte utf16 =
     (case rbind (byte_to_utf16 source byte) unwrap of
        Inl _ \<Rightarrow> False
      | Inr middle \<Rightarrow>
          (case rbind (utf16_to_byte source middle) unwrap of
             Inl _ \<Rightarrow> False
           | Inr result \<Rightarrow> middle = utf16 \<and> result = byte))"

definition test_source_file_utf16 :: "('n, 'e, 'm, 'l) syntax_ops \<Rightarrow> bool" where
  "test_source_file_utf16 ops =
     with_source (detached ops TEST) (\<lambda>source.
       roundtrip_utf16_test source 0 0
       \<and> roundtrip_utf16_test source 2 1
       \<and> roundtrip_utf16_test source 3 2
       \<and> roundtrip_utf16_test source 8 7
       \<and> roundtrip_utf16_test source 12 9
       \<and> roundtrip_utf16_test source 21 18
       \<and> byte_to_utf16 source 22 = Inr None
       \<and> utf16_to_byte source 19 = Inr None)"

text \<open>The helper \<^verbatim>\<open>roundtrip\<close> of \<^verbatim>\<open>test_source_file_roundtrip\<close>.\<close>

definition roundtrip_line_column_test :: "'n repr \<Rightarrow> nat \<Rightarrow> bool" where
  "roundtrip_line_column_test source byte =
     (case rbind (byte_to_line source byte) unwrap of
        Inl _ \<Rightarrow> False
      | Inr l \<Rightarrow>
          (case rbind (byte_to_column source byte) unwrap of
             Inl _ \<Rightarrow> False
           | Inr column \<Rightarrow>
               (case line_column_to_byte source l column of
                  None \<Rightarrow> False
                | Some result \<Rightarrow> result = byte)))"

definition test_source_file_roundtrip :: "('n, 'e, 'm, 'l) syntax_ops \<Rightarrow> bool" where
  "test_source_file_roundtrip ops =
     with_source (detached ops TEST) (\<lambda>source.
       roundtrip_line_column_test source 0
       \<and> roundtrip_line_column_test source 7
       \<and> roundtrip_line_column_test source 12
       \<and> roundtrip_line_column_test source 21)"

text \<open>The helper \<^verbatim>\<open>test\<close> of \<^verbatim>\<open>test_source_file_edit\<close>.\<close>

definition edit_test ::
  "('n, 'e, 'm, 'l) syntax_ops \<Rightarrow> rstr \<Rightarrow> byte_range \<Rightarrow> rstr \<Rightarrow> rstr \<Rightarrow> bool" where
  "edit_test ops prev r w after =
     with_source (detached ops prev) (\<lambda>source.
     with_source (detached ops after) (\<lambda>result.
     with_source (rbind (edit ops source r w) (\<lambda>(source, _). Inr source)) (\<lambda>source.
       source_text source = source_text result \<and> repr_lines source = repr_lines result)))"

definition test_source_file_edit :: "('n, 'e, 'm, 'l) syntax_ops \<Rightarrow> bool" where
  "test_source_file_edit ops \<longleftrightarrow>
     edit_test ops [97, 98, 99, LF] (0, 0) [104, 105, LF] [104, 105, LF, 97, 98, 99, LF]
     \<and> edit_test ops [LF, 97, 98, 99] (0, 0) [104, 105, CR] [104, 105, CR, LF, 97, 98, 99]
     \<and> edit_test ops TEST (4, 16) [0x274C] [0xE4, 9, 99, 0x274C, 105, CR, 106, 107, 108]
     \<and> edit_test ops [97, 98, 99, LF, 100, 101, 102] (7, 7) [104, 105]
         [97, 98, 99, LF, 100, 101, 102, 104, 105]
     \<and> edit_test ops [97, 98, 99, LF, 100, 101, 102, LF] (8, 8) [104, 105]
         [97, 98, 99, LF, 100, 101, 102, LF, 104, 105]
     \<and> edit_test ops [97, 98, 99, LF, 100, 101, 102, CR] (8, 8) [LF, 103, 104, 105]
         [97, 98, 99, LF, 100, 101, 102, CR, LF, 103, 104, 105]
     \<and> edit_test ops TEST (0, 21) [] []"

section \<open>The sources of the tests\<close>

lemma detached_total:
  assumes "numbering_total ops"
  obtains node where
    "detached ops t = Inr \<lparr>repr_id = Detached, repr_text = t, repr_root = node, repr_lines = lines t\<rparr>"
  unfolding detached_def using assms by (rule new_total)

lemma with_source_Inr [simp]: "with_source (Inr s) body = body s"
  by (simp add: with_source_def)

lemma lines_TEST:
  "lines TEST = [\<lparr>byte_idx = 0, utf16_idx = 0\<rparr>, \<lparr>byte_idx = 7, utf16_idx = 6\<rparr>,
          \<lparr>byte_idx = 15, utf16_idx = 12\<rparr>, \<lparr>byte_idx = 18, utf16_idx = 15\<rparr>]"
  by (simp add: TEST_def eval_lines)

lemma new_passes: "numbering_total ops \<Longrightarrow> test_source_file_new ops"
  by (erule detached_total [of ops TEST]) (simp add: test_source_file_new_def lines_TEST)

lemma pos_to_line_passes: "numbering_total ops \<Longrightarrow> test_source_file_pos_to_line ops"
  by (erule detached_total [of ops TEST])
    (simp add: test_source_file_pos_to_line_def byte_to_line_def lines_TEST
      binary_search_by_key_def binary_search_loop.simps search_rank_def,
     simp add: TEST_def char_len_utf8_def)

lemmas eval_test =
  eval_query replace_range_def str_to_def edit_def TEST_def Let_def

lemma pos_to_column_passes: "numbering_total ops \<Longrightarrow> test_source_file_pos_to_column ops"
  by (erule detached_total [of ops TEST])
    (simp add: test_source_file_pos_to_column_def eval_test)

lemma utf16_passes: "numbering_total ops \<Longrightarrow> test_source_file_utf16 ops"
  by (erule detached_total [of ops TEST])
    (simp add: test_source_file_utf16_def roundtrip_utf16_test_def eval_test)

lemma roundtrip_passes: "numbering_total ops \<Longrightarrow> test_source_file_roundtrip ops"
  by (erule detached_total [of ops TEST])
    (simp add: test_source_file_roundtrip_def roundtrip_line_column_test_def eval_test)

lemma edit_test_eval:
  assumes "numbering_total ops"
    and "\<And>node. rbind (edit ops \<lparr>repr_id = Detached, repr_text = prev, repr_root = node,
             repr_lines = lines prev\<rparr> r w) (\<lambda>(source, _). Inr source)
           = Inr (\<lparr>repr_id = Detached, repr_text = after,
                repr_root = fst (reparse ops node after r (str_len w)), repr_lines = lines after\<rparr>)"
  shows "edit_test ops prev r w after"
proof -
  from assms(1) obtain n1 where 1: "detached ops prev =
      Inr \<lparr>repr_id = Detached, repr_text = prev, repr_root = n1, repr_lines = lines prev\<rparr>"
    by (rule detached_total)
  from assms(1) obtain n2 where 2: "detached ops after =
      Inr \<lparr>repr_id = Detached, repr_text = after, repr_root = n2, repr_lines = lines after\<rparr>"
    by (rule detached_total)
  show ?thesis by (simp add: edit_test_def 1 2 assms(2) source_text_def)
qed

lemma edit_passes:
  assumes "numbering_total ops"
  shows "edit_test ops [97, 98, 99, LF] (0, 0) [104, 105, LF] [104, 105, LF, 97, 98, 99, LF]"
    and "edit_test ops [LF, 97, 98, 99] (0, 0) [104, 105, CR] [104, 105, CR, LF, 97, 98, 99]"
    and "edit_test ops TEST (4, 16) [0x274C] [0xE4, 9, 99, 0x274C, 105, CR, 106, 107, 108]"
    and "edit_test ops [97, 98, 99, LF, 100, 101, 102] (7, 7) [104, 105]
           [97, 98, 99, LF, 100, 101, 102, 104, 105]"
    and "edit_test ops [97, 98, 99, LF, 100, 101, 102, LF] (8, 8) [104, 105]
           [97, 98, 99, LF, 100, 101, 102, LF, 104, 105]"
    and "edit_test ops [97, 98, 99, LF, 100, 101, 102, CR] (8, 8) [LF, 103, 104, 105]
           [97, 98, 99, LF, 100, 101, 102, CR, LF, 103, 104, 105]"
    and "edit_test ops TEST (0, 21) [] []"
  by (rule edit_test_eval [OF assms], simp add: eval_test split_beta)+

lemma edit_tests_pass: "numbering_total ops \<Longrightarrow> test_source_file_edit ops"
  unfolding test_source_file_edit_def by (intro conjI edit_passes)

section \<open>The tests pass\<close>

text \<open>
  The model passes the unit tests of the file, for every parser whose numbering
  succeeds: a check of the model against the expectations that the repository states.
\<close>

lemma unit_tests_pass:
  assumes "numbering_total ops"
  shows "test_source_file_new ops \<and> test_source_file_pos_to_line ops
    \<and> test_source_file_pos_to_column ops \<and> test_source_file_utf16 ops
    \<and> test_source_file_roundtrip ops \<and> test_source_file_edit ops"
  using assms
  by (intro conjI new_passes pos_to_line_passes pos_to_column_passes utf16_passes
      roundtrip_passes edit_tests_pass)

section \<open>What the helper of the edit test accepts\<close>

text \<open>
  The helper \<^verbatim>\<open>test\<close> on a text that the range cuts: it compares the text and the table
  that \<^verbatim>\<open>edit\<close> leaves with those of a source built from the expected text.
\<close>

lemma edit_test_split:
  assumes "numbering_total ops"
  shows "edit_test ops (p @ m @ q) (str_len p, str_len p + str_len m) w after
    \<longleftrightarrow> after = p @ w @ q \<and> crlf_agree p m q w"
proof -
  from assms obtain n1 where 1: "detached ops (p @ m @ q) =
      Inr \<lparr>repr_id = Detached, repr_text = p @ m @ q, repr_root = n1, repr_lines = lines (p @ m @ q)\<rparr>"
    by (rule detached_total)
  from assms obtain n2 where 2: "detached ops after =
      Inr \<lparr>repr_id = Detached, repr_text = after, repr_root = n2, repr_lines = lines after\<rparr>"
    by (rule detached_total)
  let ?s = "\<lparr>repr_id = Detached, repr_text = p @ m @ q, repr_root = n1, repr_lines = lines (p @ m @ q)\<rparr>"
  have "source_inv ?s" "repr_text ?s = p @ m @ q" by (simp_all add: source_inv_def)
  from edit_split [OF this, of ops w] edit_lines_correct_iff [of p m q w] show ?thesis
    by (auto simp: edit_test_def 1 2 Let_def source_text_def)
qed

text \<open>On a range that does not cut the text \<^verbatim>\<open>edit\<close> panics, and the helper fails.\<close>

lemma edit_test_cuts:
  assumes "numbering_total ops" and "edit_test ops prev (a, e) w after"
  obtains p m q where "prev = p @ m @ q" and "a = str_len p" and "e = str_len p + str_len m"
proof -
  from assms(1) obtain n1 where 1: "detached ops prev =
      Inr \<lparr>repr_id = Detached, repr_text = prev, repr_root = n1, repr_lines = lines prev\<rparr>"
    by (rule detached_total)
  from assms(1) obtain n2 where 2: "detached ops after =
      Inr \<lparr>repr_id = Detached, repr_text = after, repr_root = n2, repr_lines = lines after\<rparr>"
    by (rule detached_total)
  from assms(2) obtain x where "edit ops \<lparr>repr_id = Detached, repr_text = prev, repr_root = n1,
      repr_lines = lines prev\<rparr> (a, e) w = Inr x"
    by (auto simp: edit_test_def 1 2 with_source_def rbind_def split: sum.splits)
  from edit_InrD [OF this] that show thesis
    by (auto elim: range_split)
qed

text \<open>
  C40. What the edit test of the repository can tell. For every previous text, range,
  replacement and expected text, and every parser whose numbering succeeds, the helper
  \<^verbatim>\<open>test\<close> of \<^verbatim>\<open>test_source_file_edit\<close> passes exactly when the range cuts the previous
  text at character boundaries, the expected text is the previous text with the range
  replaced, and the edit satisfies \<open>crlf_agree\<close>. So the helper fails on every edit
  that starts between the two characters of a \<^verbatim>\<open>\r\n\<close> and keeps no \<^verbatim>\<open>\n\<close> there, also
  when the expected text is the right one; none of the seven cases of the repository
  is such an edit.
\<close>

theorem edit_test_passes_iff:
  assumes "numbering_total ops"
  shows "edit_test ops prev r w after \<longleftrightarrow>
    (\<exists>p m q. prev = p @ m @ q \<and> r = (str_len p, str_len p + str_len m)
       \<and> after = p @ w @ q \<and> crlf_agree p m q w)"
proof
  assume t: "edit_test ops prev r w after"
  obtain a e where r: "r = (a, e)" by (cases r)
  from t obtain p m q where c: "prev = p @ m @ q" "a = str_len p" "e = str_len p + str_len m"
    unfolding r by (rule edit_test_cuts [OF assms])
  with t r edit_test_split [OF assms, of p m q w after] show "\<exists>p m q. prev = p @ m @ q
      \<and> r = (str_len p, str_len p + str_len m) \<and> after = p @ w @ q \<and> crlf_agree p m q w"
    by blast
next
  assume "\<exists>p m q. prev = p @ m @ q \<and> r = (str_len p, str_len p + str_len m)
      \<and> after = p @ w @ q \<and> crlf_agree p m q w"
  with edit_test_split [OF assms] show "edit_test ops prev r w after" by blast
qed

theorem edit_test_passes_iff_witness:
  "numbering_total text_ops
   \<and> edit_test text_ops [LF, 97, 98, 99] (0, 0) [104, 105, CR] [104, 105, CR, LF, 97, 98, 99]
   \<and> \<not> edit_test text_ops [97, CR, LF, 98] (2, 2) [120] [97, CR, 120, LF, 98]
   \<and> \<not> (\<exists>p m q. [97, CR, LF, 98] = p @ m @ q \<and> (2, 2) = (str_len p, str_len p + str_len m)
         \<and> [97, CR, 120, LF, 98] = p @ 120 # q \<and> crlf_agree p m q [120])"
proof -
  have 1: "edit_test text_ops [LF, 97, 98, 99] (0, 0) [104, 105, CR] [104, 105, CR, LF, 97, 98, 99]"
    by (rule edit_passes(2) [OF numbering_total_text_ops])
  have l: "str_len [97, CR] = 2" "str_len [97, CR] + str_len [] = 2"
    by (simp_all add: char_len_utf8_def)
  have c: "\<not> crlf_agree [97, CR] [] [LF, 98] [120]"
    by (simp add: crlf_agree_def ends_with_def starts_with_def)
  have 2: "\<not> edit_test text_ops [97, CR, LF, 98] (2, 2) [120] [97, CR, 120, LF, 98]"
    using edit_test_split [OF numbering_total_text_ops, of "[97, CR]" "[]" "[LF, 98]" "[120]"
        "[97, CR, 120, LF, 98]"] c
    unfolding l by simp
  from edit_test_passes_iff [of text_ops "[97, CR, LF, 98]" "(2, 2)" "[120]" "[97, CR, 120, LF, 98]"]
    1 2 show ?thesis by simp
qed

end
