(* ===== verification/Edit_Protocol.thy ===== *)
theory Edit_Protocol
  imports Source_Edit
begin

text \<open>
  The life of a snapshot as its callers drive it: after its construction a snapshot is
  only replaced or edited. The theory gives the two mutating methods of \<^verbatim>\<open>Source\<close> as
  a datatype of operations with one step function, the text alone as the abstract
  state with its own step function, and the guard under which an edit keeps the line
  table right. Its theorems say that a run of guarded operations on the snapshot is the
  run of the same operations on the text, with the line table and the lengths
  functions of the text throughout, and that every snapshot reachable by guarded
  operations satisfies the invariant.
\<close>

section \<open>Operations and runs\<close>

datatype edit_op = Replace rstr | Edit byte_range rstr

text \<open>One operation on a snapshot: the method of \<^verbatim>\<open>Source\<close>, the range of an edit dropped.\<close>

definition apply_op :: "('n, 'e, 'm, 'l) syntax_ops \<Rightarrow> 'n repr \<Rightarrow> edit_op \<Rightarrow> 'n repr result" where
  "apply_op ops s op =
     (case op of
        Replace t \<Rightarrow> replace ops s t
      | Edit r w \<Rightarrow> rbind (edit ops s r w) (\<lambda>(s', reparsed). Inr s'))"

fun run :: "('n, 'e, 'm, 'l) syntax_ops \<Rightarrow> 'n repr \<Rightarrow> edit_op list \<Rightarrow> 'n repr result" where
  "run ops s [] = Inr s"
| "run ops s (op # os) = rbind (apply_op ops s op) (\<lambda>s'. run ops s' os)"

text \<open>The same on the text alone: what the operations mean.\<close>

definition text_step :: "rstr \<Rightarrow> edit_op \<Rightarrow> rstr result" where
  "text_step t op =
     (case op of Replace t' \<Rightarrow> Inr t' | Edit r w \<Rightarrow> replace_range t (fst r) (snd r) w)"

fun text_run :: "rstr \<Rightarrow> edit_op list \<Rightarrow> rstr result" where
  "text_run t [] = Inr t"
| "text_run t (op # os) = rbind (text_step t op) (\<lambda>t'. text_run t' os)"

text \<open>
  The guard: an edit is safe on a text when, cut at its range, the text and the
  replacement satisfy \<open>crlf_agree\<close>. An edit whose range does not cut the text panics
  and needs no guard.
\<close>

definition safe_edit :: "rstr \<Rightarrow> byte_range \<Rightarrow> rstr \<Rightarrow> bool" where
  "safe_edit t r w =
     (case split_at_byte t (fst r) of
        None \<Rightarrow> True
      | Some (p, mq) \<Rightarrow>
          (case split_at_byte mq (snd r - fst r) of
             None \<Rightarrow> True
           | Some (m, q) \<Rightarrow> crlf_agree p m q w))"

definition safe_op :: "rstr \<Rightarrow> edit_op \<Rightarrow> bool" where
  "safe_op t op = (case op of Replace t' \<Rightarrow> True | Edit r w \<Rightarrow> safe_edit t r w)"

fun safe_run :: "rstr \<Rightarrow> edit_op list \<Rightarrow> bool" where
  "safe_run t [] = True"
| "safe_run t (op # os) =
     (safe_op t op \<and> (case text_step t op of Inl p \<Rightarrow> True | Inr t' \<Rightarrow> safe_run t' os))"

text \<open>What is seen of a result: the text, or that there was a panic.\<close>

definition outcome :: "'a result \<Rightarrow> 'a option" where
  "outcome r = (case r of Inl p \<Rightarrow> None | Inr v \<Rightarrow> Some v)"

lemma outcome_simps [simp]: "outcome (Inl p) = None" "outcome (Inr v) = Some v"
  by (simp_all add: outcome_def)

lemma outcome_rbind:
  "outcome (rbind m f) = (case outcome m of None \<Rightarrow> None | Some v \<Rightarrow> outcome (f v))"
  by (cases m) simp_all

section \<open>One step\<close>

lemma safe_edit_split:
  "safe_edit (p @ m @ q) (str_len p, str_len p + str_len m) w \<longleftrightarrow> crlf_agree p m q w"
  by (simp add: safe_edit_def split_at_byte_append)

text \<open>A step on a snapshot that satisfies the invariant returns when the step on its text does.\<close>

lemma edit_returns_iff:
  assumes "source_inv s"
  shows "no_panic (edit ops s (a, e) w) \<longleftrightarrow> no_panic (replace_range (repr_text s) a e w)"
proof (cases "a \<le> e \<and> is_char_boundary (repr_text s) a \<and> is_char_boundary (repr_text s) e")
  case True
  then obtain p m q where "repr_text s = p @ m @ q" "a = str_len p" "e = str_len p + str_len m"
    using range_split [of a e "repr_text s"] by blast
  with assms show ?thesis by (simp add: edit_split Let_def)
next
  case False
  then have "\<not> no_panic (replace_range (repr_text s) a e w)"
    by (simp add: replace_range_no_panic_iff)
  moreover have "\<not> no_panic (edit ops s (a, e) w)"
    using False edit_InrD [of ops s a e w] by (auto simp: no_panic_iff)
  ultimately show ?thesis by simp
qed

lemma apply_op_returns_iff:
  assumes "source_inv s" and "numbering_total ops"
  shows "outcome (apply_op ops s op) = None \<longleftrightarrow> outcome (text_step (repr_text s) op) = None"
proof (cases op)
  case (Replace t)
  from assms(2) obtain node where "new ops (repr_id s) t =
      Inr \<lparr>repr_id = repr_id s, repr_text = t, repr_root = node, repr_lines = lines t\<rparr>"
    by (rule new_total)
  with Replace show ?thesis
    by (cases s) (simp add: apply_op_def text_step_def replace_eq new_eq split: option.splits)
next
  case (Edit r w)
  with edit_returns_iff [OF assms(1), of ops "fst r" "snd r" w] show ?thesis
    by (auto simp: apply_op_def text_step_def outcome_def no_panic_def
        split: sum.splits prod.splits)
qed

text \<open>A step that returns has done to the text what the step on the text does.\<close>

lemma apply_op_text:
  assumes "apply_op ops s op = Inr s'"
  shows "text_step (repr_text s) op = Inr (repr_text s')"
proof (cases op)
  case (Replace t)
  with assms show ?thesis
    by (auto simp: apply_op_def text_step_def replace_eq split: option.splits)
next
  case (Edit r w)
  with assms show ?thesis
    by (cases r) (auto simp: apply_op_def text_step_def edit_def Let_def rbind_eq_Inr_iff
        split_beta)
qed

text \<open>A safe step keeps the invariant.\<close>

lemma apply_op_inv:
  assumes "source_inv s" and "safe_op (repr_text s) op" and "apply_op ops s op = Inr s'"
  shows "source_inv s'"
proof (cases op)
  case (Replace t)
  with assms(3) show ?thesis
    by (auto simp: apply_op_def replace_eq source_inv_def split: option.splits)
next
  case (Edit r w)
  obtain a e where r: "r = (a, e)" by (cases r)
  from assms(3) Edit r obtain rr where ed: "edit ops s (a, e) w = Inr (s', rr)"
    by (auto simp: apply_op_def rbind_eq_Inr_iff)
  from edit_InrD [OF ed] obtain p m q where
    t: "repr_text s = p @ m @ q" "a = str_len p" "e = str_len p + str_len m"
    using range_split [of a e "repr_text s"] by blast
  from assms(2) Edit r t have "crlf_agree p m q w" by (simp add: safe_op_def safe_edit_split)
  with ed t assms(1) show ?thesis
    using edit_lines_correct_iff [of p m q w]
    by (auto simp: edit_split Let_def source_inv_def)
qed

section \<open>Reachable snapshots\<close>

text \<open>
  The snapshots that a caller can hold: those that \<^verbatim>\<open>new\<close> and \<^verbatim>\<open>synthesized\<close> return, and
  those that a safe operation makes of one of them.
\<close>

inductive reachable :: "('n, 'e, 'm, 'l) syntax_ops \<Rightarrow> 'n repr \<Rightarrow> bool"
  for ops :: "('n, 'e, 'm, 'l) syntax_ops" where
  reach_new: "new ops fid t = Inr s \<Longrightarrow> reachable ops s"
| reach_synthesized: "reachable ops (synthesized ops t sp)"
| reach_step:
    "reachable ops s \<Longrightarrow> safe_op (repr_text s) op \<Longrightarrow> apply_op ops s op = Inr s' \<Longrightarrow>
     reachable ops s'"

lemma reachable_run:
  "reachable ops s \<Longrightarrow> safe_run (repr_text s) os \<Longrightarrow> run ops s os = Inr s' \<Longrightarrow>
   reachable ops s'"
proof (induction os arbitrary: s)
  case Nil
  then show ?case by simp
next
  case (Cons op os)
  from Cons.prems(3) obtain s1 where 1: "apply_op ops s op = Inr s1" "run ops s1 os = Inr s'"
    by (auto simp: rbind_eq_Inr_iff)
  from Cons.prems(2) apply_op_text [OF 1(1)] have "safe_op (repr_text s) op" "safe_run (repr_text s1) os"
    by simp_all
  with Cons.prems(1) 1 Cons.IH [of s1] show ?case by (blast intro: reach_step)
qed

section \<open>Properties of runs\<close>

text \<open>
  C11. A run of safe operations on a snapshot refines the run of the same operations on
  the text: started on a snapshot whose table is the table of its text, with a parser
  whose numbering succeeds, the run on the snapshot panics exactly when the run on the
  text does, and otherwise ends in a snapshot with the text that the run on the text
  ends in, whose table is the table of that text.
\<close>

theorem run_refines_text:
  assumes "source_inv s" and "numbering_total ops" and "safe_run (repr_text s) os"
  shows "map_option repr_text (outcome (run ops s os)) = outcome (text_run (repr_text s) os)
    \<and> (case run ops s os of Inl p \<Rightarrow> True | Inr s' \<Rightarrow> source_inv s')"
  using assms(1,3)
proof (induction os arbitrary: s)
  case Nil
  then show ?case by simp
next
  case (Cons op os)
  show ?case
  proof (cases "apply_op ops s op")
    case (Inl p)
    with apply_op_returns_iff [OF Cons.prems(1) assms(2), of op] show ?thesis
      by (auto simp: outcome_rbind split: option.splits)
  next
    case (Inr s1)
    note t = apply_op_text [OF Inr]
    from Cons.prems t have "source_inv s1" "safe_run (repr_text s1) os"
      using apply_op_inv [OF Cons.prems(1) _ Inr] by simp_all
    from Cons.IH [OF this] Inr t show ?thesis by simp
  qed
qed

theorem run_refines_text_witness:
  "source_inv (snapshot [97, CR]) \<and> numbering_total text_ops
   \<and> safe_run (repr_text (snapshot [97, CR])) [Edit (2, 2) [LF, 98], Replace [99], Edit (0, 1) []]
   \<and> text_run [97, CR] [Edit (2, 2) [LF, 98], Replace [99], Edit (0, 1) []] = Inr []
   \<and> map_option repr_text
        (outcome (run text_ops (snapshot [97, CR]) [Edit (2, 2) [LF, 98], Replace [99], Edit (0, 1) []]))
       = Some []"
proof -
  let ?os = "[Edit (2, 2) [LF, 98], Replace [99], Edit (0, 1) []]"
  have 1: "source_inv (snapshot [97, CR])" by simp
  have 3: "safe_run (repr_text (snapshot [97, CR])) ?os"
    by (simp add: safe_op_def safe_edit_def text_step_def replace_range_def crlf_agree_def
        ends_with_def starts_with_def char_len_utf8_def)
  have 4: "text_run [97, CR] ?os = Inr []"
    by (simp add: text_step_def replace_range_def char_len_utf8_def)
  from run_refines_text [OF 1 _ 3, of text_ops] 1 3 4 show ?thesis by simp
qed

text \<open>
  Every snapshot that construction and safe operations reach satisfies the
  invariant: its line table is the table of its text.
\<close>

theorem reachable_inv:
  assumes "reachable ops s"
  shows "source_inv s"
  using assms
proof (induction rule: reachable.induct)
  case (reach_new fid t s)
  then show ?case by (auto simp: new_eq source_inv_def split: option.splits)
next
  case (reach_synthesized t sp)
  show ?case by (simp add: synthesized_def source_inv_def)
next
  case (reach_step s op s')
  then show ?case by (blast intro: apply_op_inv)
qed

theorem reachable_inv_witness:
  "reachable text_ops (snapshot [97, CR, LF, 98]) \<and> source_inv (snapshot [97, CR, LF, 98])"
proof -
  have "new text_ops Detached [97, CR, LF, 98] = Inr (snapshot [97, CR, LF, 98])"
    using detached_text_ops [of "[97, CR, LF, 98]"] by (simp add: detached_def)
  then have "reachable text_ops (snapshot [97, CR, LF, 98])" by (rule reach_new)
  with reachable_inv [of text_ops "snapshot [97, CR, LF, 98]"] show ?thesis by simp
qed

end
