(* ===== verification/Handles.thy ===== *)
theory Handles
  imports Edit_Protocol
begin

text \<open>
  \<^verbatim>\<open>Source\<close> is a handle, \<^verbatim>\<open>Arc<Repr>\<close>: clones share one snapshot, and the two mutating
  methods go through \<^verbatim>\<open>Arc::make_mut\<close>, which copies the snapshot first when it is
  shared. The theory models the shared snapshots as a heap of reference-counted cells,
  the methods of \<^verbatim>\<open>Source\<close> on handles into it, and the callers as a set of slots that
  hold handles. Its theorems say that the reference counts stay equal to the number of
  handles, that a mutation through one handle is not seen through any other, and that
  a handle that is not shared is mutated in place.
\<close>

section \<open>The heap of shared snapshots\<close>

text \<open>
  \<^verbatim>\<open>ArcInner\<close>: the strong count and the value. A handle is the address of a cell; a
  cell whose count is zero has been freed. There are no weak references to a
  \<^verbatim>\<open>Repr\<close>.
\<close>

record 'n cell =
  strong :: nat
  val :: "'n repr"

type_synonym 'n heap = "'n cell list"
type_synonym source = nat

text \<open>\<^verbatim>\<open>Arc::new\<close>, \<^verbatim>\<open>Arc::clone\<close>, \<^verbatim>\<open>drop\<close>, dereference and \<^verbatim>\<open>Arc::make_mut\<close>.\<close>

definition arc_new :: "'n heap \<Rightarrow> 'n repr \<Rightarrow> 'n heap \<times> source" where
  "arc_new h v = (h @ [\<lparr>strong = 1, val = v\<rparr>], length h)"

definition arc_clone :: "'n heap \<Rightarrow> source \<Rightarrow> 'n heap \<times> source" where
  "arc_clone h a = (h[a := (h ! a)\<lparr>strong := strong (h ! a) + 1\<rparr>], a)"

definition arc_drop :: "'n heap \<Rightarrow> source \<Rightarrow> 'n heap" where
  "arc_drop h a = h[a := (h ! a)\<lparr>strong := strong (h ! a) - 1\<rparr>]"

definition arc_get :: "'n heap \<Rightarrow> source \<Rightarrow> 'n repr" where
  "arc_get h a = val (h ! a)"

definition arc_make_mut :: "'n heap \<Rightarrow> source \<Rightarrow> 'n heap \<times> source" where
  "arc_make_mut h a =
     (if strong (h ! a) = 1 then (h, a)
      else arc_new (arc_drop h a) (arc_get h a))"

text \<open>A write through the reference that \<^verbatim>\<open>make_mut\<close> returns.\<close>

definition arc_set :: "'n heap \<Rightarrow> source \<Rightarrow> 'n repr \<Rightarrow> 'n heap" where
  "arc_set h a v = h[a := (h ! a)\<lparr>val := v\<rparr>]"

section \<open>The methods of a source, on handles\<close>

text \<open>
  \<^verbatim>\<open>Source::new\<close> wraps the snapshot in a new cell; \<^verbatim>\<open>clone\<close> is derived; \<^verbatim>\<open>replace\<close>
  and \<^verbatim>\<open>edit\<close> take the handle to a cell of their own and change the snapshot there.
  \<open>handle_edit\<close> is the method in the order of its statements: the two reads of the
  start of the range go through the handle as it is, then \<^verbatim>\<open>make_mut\<close> gives the cell
  that the rest of the method changes. \<open>handle_edit_eq\<close> says that this is \<open>edit\<close> on
  the snapshot of the cell that \<^verbatim>\<open>make_mut\<close> gives.
\<close>

definition handle_new ::
  "('n, 'e, 'm, 'l) syntax_ops \<Rightarrow> 'n heap \<Rightarrow> file_id \<Rightarrow> rstr \<Rightarrow> ('n heap \<times> source) result" where
  "handle_new ops h fid t = rbind (new ops fid t) (\<lambda>v. Inr (arc_new h v))"

definition handle_clone :: "'n heap \<Rightarrow> source \<Rightarrow> 'n heap \<times> source" where
  "handle_clone h a = arc_clone h a"

definition handle_drop :: "'n heap \<Rightarrow> source \<Rightarrow> 'n heap" where
  "handle_drop h a = arc_drop h a"

definition handle_replace ::
  "('n, 'e, 'm, 'l) syntax_ops \<Rightarrow> 'n heap \<Rightarrow> source \<Rightarrow> rstr \<Rightarrow> ('n heap \<times> source) result" where
  "handle_replace ops h a t =
     (case arc_make_mut h a of (h, a) \<Rightarrow>
        rbind (replace ops (arc_get h a) t) (\<lambda>v. Inr (arc_set h a v, a)))"

definition handle_edit ::
  "('n, 'e, 'm, 'l) syntax_ops \<Rightarrow> 'n heap \<Rightarrow> source \<Rightarrow> byte_range \<Rightarrow> rstr
     \<Rightarrow> ('n heap \<times> source \<times> byte_range) result" where
  "handle_edit ops h a r w =
     (let start_byte = fst r in
      rbind (rbind (byte_to_utf16 (arc_get h a) start_byte) unwrap) (\<lambda>start_utf16.
      rbind (rbind (byte_to_line (arc_get h a) start_byte) unwrap) (\<lambda>line.
      case arc_make_mut h a of (h, a) \<Rightarrow>
        (let inner = arc_get h a in
         rbind (replace_range (repr_text inner) (fst r) (snd r) w) (\<lambda>text.
         let ls = take (line + 1) (repr_lines inner) in
         rbind (str_to text start_byte) (\<lambda>head.
         let ls = (if ends_with head CR \<and> starts_with w LF then butlast ls else ls) in
         rbind (str_from text start_byte) (\<lambda>tail.
         let ls = ls @ lines_from start_byte start_utf16 tail;
             (node, reparsed) = reparse ops (repr_root inner) text r (str_len w)
         in Inr (arc_set h a (inner\<lparr>repr_text := text, repr_lines := ls, repr_root := node\<rparr>),
                 a, reparsed))))))))"

section \<open>Callers\<close>

text \<open>
  The callers hold handles in slots; a slot is empty after its handle is dropped. An
  event is what a caller does with a slot.
\<close>

record 'n world =
  heap :: "'n heap"
  slots :: "source option list"

datatype event =
    New file_id rstr
  | Clone nat
  | Drop nat
  | Replace_At nat rstr
  | Edit_At nat byte_range rstr

inductive step ::
  "('n, 'e, 'm, 'l) syntax_ops \<Rightarrow> 'n world \<Rightarrow> event \<Rightarrow> 'n world \<Rightarrow> bool"
  for ops :: "('n, 'e, 'm, 'l) syntax_ops" where
  step_new:
    "handle_new ops (heap w) fid t = Inr (h, a) \<Longrightarrow>
     step ops w (New fid t) \<lparr>heap = h, slots = slots w @ [Some a]\<rparr>"
| step_clone:
    "i < length (slots w) \<Longrightarrow> slots w ! i = Some a \<Longrightarrow> handle_clone (heap w) a = (h, a') \<Longrightarrow>
     step ops w (Clone i) \<lparr>heap = h, slots = slots w @ [Some a']\<rparr>"
| step_drop:
    "i < length (slots w) \<Longrightarrow> slots w ! i = Some a \<Longrightarrow>
     step ops w (Drop i) \<lparr>heap = handle_drop (heap w) a, slots = (slots w)[i := None]\<rparr>"
| step_replace:
    "i < length (slots w) \<Longrightarrow> slots w ! i = Some a \<Longrightarrow>
     handle_replace ops (heap w) a t = Inr (h, a') \<Longrightarrow>
     step ops w (Replace_At i t) \<lparr>heap = h, slots = (slots w)[i := Some a']\<rparr>"
| step_edit:
    "i < length (slots w) \<Longrightarrow> slots w ! i = Some a \<Longrightarrow>
     handle_edit ops (heap w) a r x = Inr (h, a', reparsed) \<Longrightarrow>
     step ops w (Edit_At i r x) \<lparr>heap = h, slots = (slots w)[i := Some a']\<rparr>"

inductive_cases step_NewE: "step ops w (New fid t) w'"
inductive_cases step_CloneE: "step ops w (Clone i) w'"
inductive_cases step_DropE: "step ops w (Drop i) w'"
inductive_cases step_ReplaceE: "step ops w (Replace_At i t) w'"
inductive_cases step_EditE: "step ops w (Edit_At i r x) w'"

text \<open>The worlds that the callers can reach from the empty one.\<close>

inductive worlds :: "('n, 'e, 'm, 'l) syntax_ops \<Rightarrow> 'n world \<Rightarrow> bool"
  for ops :: "('n, 'e, 'm, 'l) syntax_ops" where
  worlds_init: "worlds ops \<lparr>heap = [], slots = []\<rparr>"
| worlds_step: "worlds ops w \<Longrightarrow> step ops w ev w' \<Longrightarrow> worlds ops w'"

section \<open>Reference counts\<close>

text \<open>
  The count of every cell is the number of slots that hold its address, and every
  slot holds the address of a cell.
\<close>

definition wf :: "'n world \<Rightarrow> bool" where
  "wf w \<longleftrightarrow>
     list_all (\<lambda>a. strong (heap w ! a) = count_list (slots w) (Some a)) [0..<length (heap w)]
     \<and> list_all (\<lambda>x. case x of None \<Rightarrow> True | Some a \<Rightarrow> a < length (heap w)) (slots w)"

lemma wf_iff:
  "wf w \<longleftrightarrow>
     (\<forall>a < length (heap w). strong (heap w ! a) = count_list (slots w) (Some a))
     \<and> (\<forall>a. Some a \<in> set (slots w) \<longrightarrow> a < length (heap w))"
  by (auto simp: wf_def list_all_iff split: option.splits)

lemma count_list_update:
  "i < length xs \<Longrightarrow>
   count_list (xs[i := v]) y + (if xs ! i = y then 1 else 0)
     = count_list xs y + (if v = y then 1 else 0)"
proof (induction xs arbitrary: i)
  case Nil
  then show ?case by simp
next
  case (Cons x xs)
  show ?case
  proof (cases i)
    case 0
    then show ?thesis by simp
  next
    case (Suc n)
    with Cons.IH [of n] Cons.prems show ?thesis by (auto split: if_splits)
  qed
qed

lemma count_list_pos: "x \<in> set xs \<Longrightarrow> 0 < count_list xs x"
  by (induction xs) auto

lemma count_list_one_unique:
  assumes "count_list xs x = 1" and "i < length xs" and "j < length xs"
    and "xs ! i = x" and "xs ! j = x"
  shows "i = j"
  using assms
proof (induction xs arbitrary: i j)
  case Nil
  then show ?case by simp
next
  case (Cons y ys)
  show ?case
  proof (cases "y = x")
    case True
    with Cons.prems(1) have "count_list ys x = 0" by simp
    then have "x \<notin> set ys" using count_list_pos [of x ys] by auto
    with Cons.prems True show ?thesis by (cases i; cases j) auto
  next
    case False
    with Cons.prems Cons.IH [of "i - 1" "j - 1"] show ?thesis by (cases i; cases j) auto
  qed
qed

lemma wf_slot:
  "wf w \<Longrightarrow> i < length (slots w) \<Longrightarrow> slots w ! i = Some a \<Longrightarrow>
   a < length (heap w) \<and> 0 < strong (heap w ! a)"
  using count_list_pos [of "Some a" "slots w"] by (auto simp: wf_iff dest: nth_mem)

section \<open>What \<^verbatim>\<open>make_mut\<close> does\<close>

text \<open>A cell that one slot holds is returned as it is.\<close>

lemma make_mut_unique:
  "strong (h ! a) = 1 \<Longrightarrow> arc_make_mut h a = (h, a)"
  by (simp add: arc_make_mut_def)

text \<open>A cell that several slots hold is copied to a new cell, and its count goes down.\<close>

lemma make_mut_shared:
  "strong (h ! a) \<noteq> 1 \<Longrightarrow>
   arc_make_mut h a =
     (h[a := (h ! a)\<lparr>strong := strong (h ! a) - 1\<rparr>] @ [\<lparr>strong = 1, val = val (h ! a)\<rparr>], length h)"
  by (simp add: arc_make_mut_def arc_new_def arc_drop_def arc_get_def)

text \<open>The cell that \<^verbatim>\<open>make_mut\<close> gives holds the snapshot of the handle.\<close>

lemma arc_get_make_mut: "arc_make_mut h a = (h', a') \<Longrightarrow> arc_get h' a' = arc_get h a"
  by (auto simp: arc_make_mut_def arc_new_def arc_drop_def arc_get_def nth_append
      split: if_splits)

text \<open>
  The edit through a handle is the edit of the snapshot in the cell that \<^verbatim>\<open>make_mut\<close>
  gives: the reads before the copy see the same snapshot as the reads after it would.
\<close>

lemma handle_edit_eq:
  "handle_edit ops h a r w =
     (case arc_make_mut h a of (h', a') \<Rightarrow>
        rbind (edit ops (arc_get h' a') r w) (\<lambda>(v, reparsed). Inr (arc_set h' a' v, a', reparsed)))"
proof -
  obtain h' a' where m: "arc_make_mut h a = (h', a')" by (cases "arc_make_mut h a")
  show ?thesis
    by (simp add: handle_edit_def edit_def m arc_get_make_mut [OF m] Let_def split_beta
        rbind_def split: sum.split)
qed


lemma make_mut_val:
  assumes "a < length h" and "arc_make_mut h a = (h', a')"
  shows "a' < length h'" and "val (h' ! a') = val (h ! a)" and "length h \<le> length h'"
    and "b < length h \<Longrightarrow> val (h' ! b) = val (h ! b)"
  using assms
  by (cases "strong (h ! a) = 1"; auto simp: make_mut_unique make_mut_shared nth_append
      nth_list_update)+

lemma make_mut_wf:
  assumes "wf w" and "i < length (slots w)" and "slots w ! i = Some a"
    and "arc_make_mut (heap w) a = (h, a')"
  shows "wf \<lparr>heap = h, slots = (slots w)[i := Some a']\<rparr>" and "strong (h ! a') = 1"
proof -
  note s = wf_slot [OF assms(1-3)]
  have c: "count_list ((slots w)[i := v]) y + (if Some a = y then 1 else 0)
      = count_list (slots w) y + (if v = y then 1 else 0)" for v y
    using count_list_update [OF assms(2), of v y] assms(3) by simp
  have fresh: "count_list (slots w) (Some (length (heap w))) = 0"
    using assms(1) by (auto simp: wf_iff count_list_0_iff)
  show "wf \<lparr>heap = h, slots = (slots w)[i := Some a']\<rparr>"
  proof (cases "strong (heap w ! a) = 1")
    case True
    have "(slots w)[i := Some a] = slots w"
      using list_update_id [of "slots w" i] assms(3) by simp
    with True assms show ?thesis by (simp add: make_mut_unique wf_iff)
  next
    case False
    with assms(4) have h: "h = (heap w)[a := (heap w ! a)\<lparr>strong := strong (heap w ! a) - 1\<rparr>]
        @ [\<lparr>strong = 1, val = val (heap w ! a)\<rparr>]" and a': "a' = length (heap w)"
      by (simp_all add: make_mut_shared)
    have "strong (h ! b) = count_list ((slots w)[i := Some a']) (Some b)" if "b < length h" for b
      using that c [of "Some a'" "Some b"] fresh s assms(1)
      by (auto simp: h a' nth_append nth_list_update wf_iff less_Suc_eq)
    moreover have "b < length h" if "Some b \<in> set ((slots w)[i := Some a'])" for b
      using that assms(1) set_update_subset_insert [of "slots w" i "Some a'"]
      by (auto simp: h a' wf_iff less_Suc_eq)
    ultimately show ?thesis by (simp add: wf_iff)
  qed
  show "strong (h ! a') = 1"
    using assms(4) s
    by (cases "strong (heap w ! a) = 1") (auto simp: make_mut_unique make_mut_shared nth_append)
qed

text \<open>What another slot holds is neither moved nor changed.\<close>

lemma make_mut_other:
  assumes "wf w" and "i < length (slots w)" and "slots w ! i = Some a"
    and "j < length (slots w)" and "slots w ! j = Some b" and "i \<noteq> j"
    and "arc_make_mut (heap w) a = (h, a')"
  shows "b \<noteq> a'" and "b < length h" and "val (h ! b) = val (heap w ! b)"
proof -
  note sa = wf_slot [OF assms(1-3)] and sb = wf_slot [OF assms(1,4,5)]
  show "b \<noteq> a'"
  proof (cases "strong (heap w ! a) = 1")
    case True
    with assms(1) sa have "count_list (slots w) (Some a) = 1" by (simp add: wf_iff)
    from count_list_one_unique [OF this assms(2,4,3)] assms(5,6) have "b \<noteq> a" by auto
    with True assms(7) show ?thesis by (simp add: make_mut_unique)
  next
    case False
    with assms(7) sb show ?thesis by (auto simp: make_mut_shared)
  qed
  from sa have a: "a < length (heap w)" by simp
  from sb make_mut_val(3) [OF a assms(7)] show "b < length h" by simp
  from sb make_mut_val(4) [OF a assms(7), of b] show "val (h ! b) = val (heap w ! b)" by simp
qed

lemma arc_set_strong [simp]: "strong (arc_set h a v ! b) = strong (h ! b)"
  by (cases "b = a"; cases "a < length h") (simp_all add: arc_set_def list_update_beyond)

lemma arc_set_simps [simp]:
  "length (arc_set h a v) = length h"
  "a < length h \<Longrightarrow> val (arc_set h a v ! a) = v"
  "b \<noteq> a \<Longrightarrow> val (arc_set h a v ! b) = val (h ! b)"
  by (simp_all add: arc_set_def)

lemma arc_set_wf:
  "wf \<lparr>heap = h, slots = ss\<rparr> \<Longrightarrow> wf \<lparr>heap = arc_set h a v, slots = ss\<rparr>"
  by (simp add: wf_iff)

section \<open>Every step keeps the counts\<close>

lemma step_preserves_wf:
  assumes "step ops w ev w'" and "wf w"
  shows "wf w'"
  using assms
proof (cases rule: step.cases)
  case (step_new fid t h a)
  then obtain v where "h = heap w @ [\<lparr>strong = 1, val = v\<rparr>]" "a = length (heap w)"
    by (auto simp: handle_new_def arc_new_def rbind_eq_Inr_iff)
  with step_new assms(2) show ?thesis
    by (auto simp: wf_iff nth_append less_Suc_eq count_list_0_iff)
next
  case (step_clone i a h a')
  note s = wf_slot [OF assms(2) step_clone(3,4)]
  from step_clone s assms(2) show ?thesis
    by (auto simp: wf_iff handle_clone_def arc_clone_def nth_list_update)
next
  case (step_drop i a)
  note s = wf_slot [OF assms(2) step_drop(3,4)]
  have c: "count_list ((slots w)[i := None]) (Some b) + (if a = b then 1 else 0)
      = count_list (slots w) (Some b)" for b
    using count_list_update [OF step_drop(3), of None "Some b"] step_drop(4) by simp
  have 1: "strong ((heap w)[a := (heap w ! a)\<lparr>strong := strong (heap w ! a) - 1\<rparr>] ! b)
      = count_list ((slots w)[i := None]) (Some b)" if "b < length (heap w)" for b
    using c [of b] s assms(2) that by (cases "b = a") (simp_all add: wf_iff)
  have 2: "b < length (heap w)" if "Some b \<in> set ((slots w)[i := None])" for b
    using that assms(2) set_update_subset_insert [of "slots w" i None] by (auto simp: wf_iff)
  from 1 2 step_drop(2) show ?thesis
    by (simp add: wf_iff handle_drop_def arc_drop_def)
next
  case (step_replace i a t h a')
  then obtain h1 v where "arc_make_mut (heap w) a = (h1, a')" "h = arc_set h1 a' v"
    by (auto simp: handle_replace_def rbind_eq_Inr_iff split: prod.splits)
  with make_mut_wf(1) [OF assms(2) step_replace(3,4)] step_replace(2) show ?thesis
    by (simp add: arc_set_wf)
next
  case (step_edit i a r x h a' reparsed)
  then obtain h1 v where "arc_make_mut (heap w) a = (h1, a')" "h = arc_set h1 a' v"
    by (auto simp: handle_edit_eq rbind_eq_Inr_iff split: prod.splits)
  with make_mut_wf(1) [OF assms(2) step_edit(3,4)] step_edit(2) show ?thesis
    by (simp add: arc_set_wf)
qed

text \<open>The slot that an event changes.\<close>

fun target :: "event \<Rightarrow> nat option" where
  "target (New fid t) = None"
| "target (Clone i) = None"
| "target (Drop i) = Some i"
| "target (Replace_At i t) = Some i"
| "target (Edit_At i r x) = Some i"

section \<open>A world to run on\<close>

text \<open>
  Two slots that share the snapshot of \<^verbatim>\<open>ab\<close>, and the world after an edit through the
  second.
\<close>

definition shared_world :: "rstr world" where
  "shared_world = \<lparr>heap = [\<lparr>strong = 2, val = snapshot [97, 98]\<rparr>], slots = [Some 0, Some 0]\<rparr>"

definition edited_world :: "rstr world" where
  "edited_world =
     \<lparr>heap = [\<lparr>strong = 1, val = snapshot [97, 98]\<rparr>, \<lparr>strong = 1, val = snapshot [97, 120, 98]\<rparr>],
      slots = [Some 0, Some 1]\<rparr>"

lemmas eval_handle =
  handle_new_def handle_clone_def handle_drop_def handle_replace_def handle_edit_eq
  arc_new_def arc_clone_def arc_drop_def arc_get_def arc_set_def arc_make_mut_def

definition single_world :: "rstr world" where
  "single_world = \<lparr>heap = [\<lparr>strong = 1, val = snapshot [97, 98]\<rparr>], slots = [Some 0]\<rparr>"

lemma step_empty_single:
  "step text_ops \<lparr>heap = [], slots = []\<rparr> (New Detached [97, 98]) single_world"
proof -
  let ?w0 = "\<lparr>heap = [], slots = []\<rparr> :: rstr world"
  have "handle_new text_ops (heap ?w0) Detached [97, 98]
      = Inr ([\<lparr>strong = 1, val = snapshot [97, 98]\<rparr>], 0)"
    using detached_text_ops [of "[97, 98]"] by (simp add: eval_handle detached_def)
  from step_new [of text_ops ?w0, OF this] show ?thesis by (simp add: single_world_def)
qed

lemma step_single_shared: "step text_ops single_world (Clone 0) shared_world"
  using step_clone [of 0 single_world 0 "heap shared_world" 0 text_ops]
  by (simp add: eval_handle shared_world_def single_world_def)

lemma worlds_shared_world: "worlds text_ops shared_world"
  using step_empty_single step_single_shared by (blast intro: worlds.intros)

lemma step_shared_edited: "step text_ops shared_world (Edit_At 1 (1, 1) [120]) edited_world"
proof -
  have "edit text_ops (snapshot [97, 98]) (1, 1) [120] = Inr (snapshot [97, 120, 98], (0, 3))"
    by (simp add: eval_query replace_range_def str_to_def edit_def Let_def text_ops_def
        snapshot_def)
  then have "handle_edit text_ops (heap shared_world) 0 (1, 1) [120]
      = Inr (heap edited_world, 1, (0, 3))"
    by (simp add: eval_handle shared_world_def edited_world_def)
  from step_edit [of 1 shared_world 0 text_ops "(1, 1)" "[120]", OF _ _ this] show ?thesis
    by (simp add: shared_world_def edited_world_def)
qed

section \<open>Properties of the handles\<close>

text \<open>
  In every world that the callers can reach, the strong count of every cell is the
  number of slots that hold its address, and every slot holds the address of a cell:
  no snapshot is freed while a handle to it exists, and none is kept after its last
  handle is dropped.
\<close>

theorem worlds_wf:
  assumes "worlds ops w"
  shows "wf w"
  using assms
proof (induction rule: worlds.induct)
  case worlds_init
  show ?case by (simp add: wf_def)
next
  case (worlds_step w ev w')
  then show ?case by (blast intro: step_preserves_wf)
qed

theorem worlds_wf_witness:
  "worlds text_ops shared_world \<and> wf shared_world"
  using worlds_wf [OF worlds_shared_world] worlds_shared_world by simp

text \<open>
  C12. Copy on write isolates the handles: when the counts are right, a step changes
  neither the address nor the snapshot that is read through any slot other than the
  one the step acts on. An edit or a replacement through one handle is not seen through
  any other handle.
\<close>

theorem mutation_isolated:
  assumes "step ops w ev w'" and "wf w"
    and "j < length (slots w)" and "slots w ! j = Some b" and "target ev \<noteq> Some j"
  shows "slots w' ! j = Some b \<and> arc_get (heap w') b = arc_get (heap w) b"
  using assms(1)
proof (cases rule: step.cases)
  case (step_new fid t h a)
  then obtain v where "h = heap w @ [\<lparr>strong = 1, val = v\<rparr>]"
    by (auto simp: handle_new_def arc_new_def rbind_eq_Inr_iff)
  with step_new assms(3,4) wf_slot [OF assms(2-4)] show ?thesis
    by (simp add: nth_append arc_get_def)
next
  case (step_clone i a h a')
  with assms(3,4) wf_slot [OF assms(2-4)] wf_slot [OF assms(2) step_clone(3,4)] show ?thesis
    by (auto simp: nth_append arc_get_def handle_clone_def arc_clone_def nth_list_update)
next
  case (step_drop i a)
  with assms(3-5) wf_slot [OF assms(2-4)] wf_slot [OF assms(2) step_drop(3,4)] show ?thesis
    by (auto simp: arc_get_def handle_drop_def arc_drop_def nth_list_update)
next
  case (step_replace i a t h a')
  then obtain h1 v where mm: "arc_make_mut (heap w) a = (h1, a')" and h: "h = arc_set h1 a' v"
    by (auto simp: handle_replace_def rbind_eq_Inr_iff split: prod.splits)
  from step_replace assms(5) have ij: "i \<noteq> j" by auto
  from make_mut_other [OF assms(2) step_replace(3,4) assms(3,4) ij mm] step_replace(2) h ij
    assms(4)
  show ?thesis by (simp add: arc_get_def)
next
  case (step_edit i a r x h a' reparsed)
  then obtain h1 v where mm: "arc_make_mut (heap w) a = (h1, a')" and h: "h = arc_set h1 a' v"
    by (auto simp: handle_edit_eq rbind_eq_Inr_iff split: prod.splits)
  from step_edit assms(5) have ij: "i \<noteq> j" by auto
  from make_mut_other [OF assms(2) step_edit(3,4) assms(3,4) ij mm] step_edit(2) h ij
    assms(4)
  show ?thesis by (simp add: arc_get_def)
qed

theorem mutation_isolated_witness:
  "step text_ops shared_world (Edit_At 1 (1, 1) [120]) edited_world \<and> wf shared_world
   \<and> 0 < length (slots shared_world) \<and> slots shared_world ! 0 = Some 0
   \<and> target (Edit_At 1 (1, 1) [120]) \<noteq> Some 0
   \<and> slots edited_world ! 0 = Some 0
   \<and> arc_get (heap edited_world) 0 = snapshot [97, 98]
   \<and> arc_get (heap edited_world) 1 = snapshot [97, 120, 98]"
proof -
  have wf: "wf shared_world" by (simp add: wf_def shared_world_def)
  have h: "0 < length (slots shared_world)" "slots shared_world ! 0 = Some 0"
    "target (Edit_At 1 (1, 1) [120]) \<noteq> Some 0"
    by (simp_all add: shared_world_def)
  from mutation_isolated [OF step_shared_edited wf h] step_shared_edited wf h show ?thesis
    by (simp add: arc_get_def shared_world_def edited_world_def)
qed

text \<open>
  C39. An edit through a handle is the edit of the snapshot the handle reads, with copy
  on write: the handle returned reads the edited snapshot and is the only handle to its
  cell; when the cell was held once it is changed in place and nothing is allocated;
  when it was shared the edited snapshot is in a new cell, and the old cell keeps its
  snapshot with its count one less.
\<close>

theorem handle_edit_copy_on_write:
  assumes "a < length h" and "handle_edit ops h a r x = Inr (h', a', reparsed)"
  shows "edit ops (arc_get h a) r x = Inr (arc_get h' a', reparsed) \<and> strong (h' ! a') = 1
    \<and> (if strong (h ! a) = 1 then a' = a \<and> length h' = length h
        else a' = length h \<and> length h' = Suc (length h)
          \<and> strong (h' ! a) = strong (h ! a) - 1 \<and> arc_get h' a = arc_get h a)"
proof (cases "strong (h ! a) = 1")
  case True
  with assms show ?thesis
    by (auto simp: handle_edit_eq make_mut_unique rbind_eq_Inr_iff arc_get_def)
next
  case False
  with assms show ?thesis
    by (auto simp: handle_edit_eq make_mut_shared rbind_eq_Inr_iff arc_get_def arc_set_def
        nth_append)
qed

theorem handle_edit_copy_on_write_witness:
  "0 < length (heap shared_world)
   \<and> handle_edit text_ops (heap shared_world) 0 (1, 1) [120] = Inr (heap edited_world, 1, (0, 3))
   \<and> edit text_ops (arc_get (heap shared_world) 0) (1, 1) [120]
       = Inr (arc_get (heap edited_world) 1, (0, 3))
   \<and> strong (heap edited_world ! 1) = 1 \<and> strong (heap shared_world ! 0) \<noteq> 1
   \<and> length (heap edited_world) = Suc (length (heap shared_world))
   \<and> strong (heap edited_world ! 0) = strong (heap shared_world ! 0) - 1
   \<and> arc_get (heap edited_world) 0 = arc_get (heap shared_world) 0"
proof -
  have 1: "0 < length (heap shared_world)" by (simp add: shared_world_def)
  have 2: "handle_edit text_ops (heap shared_world) 0 (1, 1) [120]
      = Inr (heap edited_world, 1, (0, 3))"
    by (simp add: eval_handle shared_world_def edited_world_def eval_query replace_range_def
        str_to_def edit_def Let_def text_ops_def snapshot_def)
  have 3: "strong (heap shared_world ! 0) \<noteq> 1" by (simp add: shared_world_def)
  from handle_edit_copy_on_write [OF 1 2] 3
  have "edit text_ops (arc_get (heap shared_world) 0) (1, 1) [120]
        = Inr (arc_get (heap edited_world) 1, (0, 3))
    \<and> strong (heap edited_world ! 1) = 1
    \<and> length (heap edited_world) = Suc (length (heap shared_world))
    \<and> strong (heap edited_world ! 0) = strong (heap shared_world ! 0) - 1
    \<and> arc_get (heap edited_world) 0 = arc_get (heap shared_world) 0"
    by (simp only: if_False)
  with 1 2 3 show ?thesis by blast
qed

section \<open>The snapshots in the heap\<close>

text \<open>
  Every cell of the heap holds a snapshot whose table is the table of its text; and
  the events that keep it so: an edit must be safe on the text it is applied to.
\<close>

definition heap_all :: "('n repr \<Rightarrow> bool) \<Rightarrow> 'n heap \<Rightarrow> bool" where
  "heap_all P h = list_all (\<lambda>c. P (val c)) h"

definition heap_inv :: "'n heap \<Rightarrow> bool" where
  "heap_inv h = list_all (\<lambda>c. source_inv (val c)) h"

fun safe_event :: "'n world \<Rightarrow> event \<Rightarrow> bool" where
  "safe_event w (Edit_At i r x) =
     (case slots w ! i of
        None \<Rightarrow> True
      | Some a \<Rightarrow> safe_edit (repr_text (arc_get (heap w) a)) r x)"
| "safe_event w ev = True"

text \<open>
  The same for any property of snapshots: it holds of every cell when the operations
  that make a snapshot establish it and those that change one preserve it.
\<close>

lemma heap_inv_heap_all: "heap_inv h = heap_all source_inv h"
  by (simp add: heap_inv_def heap_all_def)

lemma heap_all_iff: "heap_all P h \<longleftrightarrow> (\<forall>a < length h. P (val (h ! a)))"
  by (simp add: heap_all_def list_all_length)

lemma heap_inv_iff: "heap_inv h \<longleftrightarrow> (\<forall>a < length h. source_inv (val (h ! a)))"
  by (simp add: heap_inv_heap_all heap_all_iff)

lemma heap_all_strong:
  "heap_all P h \<Longrightarrow> heap_all P (h[a := (h ! a)\<lparr>strong := n\<rparr>])"
  by (cases "a < length h") (auto simp: heap_all_iff nth_list_update list_update_beyond)

lemma heap_all_snoc:
  "heap_all P h \<Longrightarrow> P v \<Longrightarrow> heap_all P (h @ [\<lparr>strong = n, val = v\<rparr>])"
  by (simp add: heap_all_def)

lemma heap_all_make_mut:
  assumes "heap_all P h" and "a < length h" and "arc_make_mut h a = (h', a')"
  shows "heap_all P h'"
proof (cases "strong (h ! a) = 1")
  case True
  with assms show ?thesis by (simp add: make_mut_unique)
next
  case False
  from assms(1,2) have "P (val (h ! a))" by (simp add: heap_all_iff)
  with False assms show ?thesis
    by (auto simp: make_mut_shared intro!: heap_all_snoc heap_all_strong)
qed

lemma heap_all_arc_set:
  "heap_all P h \<Longrightarrow> P v \<Longrightarrow> heap_all P (arc_set h a v)"
  by (cases "a < length h")
    (auto simp: heap_all_iff arc_set_def nth_list_update list_update_beyond)

text \<open>
  A mutation through a handle: the cell that \<^verbatim>\<open>make_mut\<close> gives holds the snapshot of
  the handle, and the heap with the new snapshot written there keeps the property.
\<close>

lemma heap_all_mutate:
  assumes "heap_all P h" and "a < length h" and "arc_make_mut h a = (h1, a')"
  shows "P v \<Longrightarrow> heap_all P (arc_set h1 a' v)"
    and "arc_get h1 a' = arc_get h a" and "P (arc_get h a)"
proof -
  from assms have "heap_all P h1" by (rule heap_all_make_mut)
  then show "P v \<Longrightarrow> heap_all P (arc_set h1 a' v)" by (rule heap_all_arc_set)
  show "arc_get h1 a' = arc_get h a"
    using make_mut_val(2) [OF assms(2,3)] by (simp add: arc_get_def)
  from assms(1,2) show "P (arc_get h a)" by (simp add: heap_all_iff arc_get_def)
qed

lemma step_preserves_heap_all:
  assumes "step ops w ev w'" and "wf w" and "heap_all P (heap w)"
    and new: "\<And>fid t v. new ops fid t = Inr v \<Longrightarrow> P v"
    and rep: "\<And>s t v. P s \<Longrightarrow> replace ops s t = Inr v \<Longrightarrow> P v"
    and ed: "\<And>i a r x v rg. ev = Edit_At i r x \<Longrightarrow> slots w ! i = Some a \<Longrightarrow>
      P (arc_get (heap w) a) \<Longrightarrow> edit ops (arc_get (heap w) a) r x = Inr (v, rg) \<Longrightarrow> P v"
  shows "heap_all P (heap w')"
  using assms(1)
proof (cases rule: step.cases)
  case (step_new fid t h a)
  then obtain v where "new ops fid t = Inr v" "h = heap w @ [\<lparr>strong = 1, val = v\<rparr>]"
    by (auto simp: handle_new_def arc_new_def rbind_eq_Inr_iff)
  with new [of fid t v] step_new assms(3) show ?thesis by (simp add: heap_all_snoc)
next
  case (step_clone i a h a')
  with assms(3) show ?thesis
    by (auto simp: handle_clone_def arc_clone_def intro: heap_all_strong)
next
  case (step_drop i a)
  with assms(3) show ?thesis
    by (auto simp: handle_drop_def arc_drop_def intro: heap_all_strong)
next
  case (step_replace i a t h a')
  then obtain h1 v where mm: "arc_make_mut (heap w) a = (h1, a')"
    and v: "replace ops (arc_get h1 a') t = Inr v" and h: "h = arc_set h1 a' v"
    by (auto simp: handle_replace_def rbind_eq_Inr_iff split: prod.splits)
  from wf_slot [OF assms(2) step_replace(3,4)] have a: "a < length (heap w)" by simp
  note m = heap_all_mutate [OF assms(3) a mm]
  from rep [of "arc_get h1 a'" t v] v m(2,3) have "P v" by simp
  with m(1) step_replace(2) h show ?thesis by simp
next
  case (step_edit i a r x h a' reparsed)
  then obtain h1 v where mm: "arc_make_mut (heap w) a = (h1, a')"
    and v: "edit ops (arc_get h1 a') r x = Inr (v, reparsed)" and h: "h = arc_set h1 a' v"
    by (auto simp: handle_edit_eq rbind_eq_Inr_iff split: prod.splits)
  from wf_slot [OF assms(2) step_edit(3,4)] have a: "a < length (heap w)" by simp
  note m = heap_all_mutate [OF assms(3) a mm]
  from ed [OF step_edit(1,4) m(3), of v reparsed] v m(2) have "P v" by simp
  with m(1) step_edit(2) h show ?thesis by simp
qed

text \<open>In every world that the callers reach, whatever they do.\<close>

lemma worlds_heap_all:
  assumes "worlds ops w"
    and new: "\<And>fid t v. new ops fid t = Inr v \<Longrightarrow> P v"
    and rep: "\<And>s t v. P s \<Longrightarrow> replace ops s t = Inr v \<Longrightarrow> P v"
    and ed: "\<And>s r x v rg. P s \<Longrightarrow> edit ops s r x = Inr (v, rg) \<Longrightarrow> P v"
  shows "wf w \<and> heap_all P (heap w)"
  using assms(1)
proof (induction rule: worlds.induct)
  case worlds_init
  show ?case by (simp add: wf_def heap_all_def)
next
  case (worlds_step w ev w')
  then show ?case
    using step_preserves_heap_all [of ops w ev w' P] new rep ed
    by (blast intro: step_preserves_wf)
qed

text \<open>A safe edit of a snapshot that satisfies the invariant returns one that does.\<close>

lemma safe_edit_inv:
  assumes "source_inv s" and "safe_edit (repr_text s) r x" and "edit ops s r x = Inr (s', rr)"
  shows "source_inv s'"
  using apply_op_inv [of s "Edit r x" ops s'] assms by (simp add: safe_op_def apply_op_def)

lemma step_preserves_heap_inv:
  assumes "step ops w ev w'" and "wf w" and "heap_inv (heap w)" and "safe_event w ev"
  shows "heap_inv (heap w')"
  unfolding heap_inv_heap_all
proof (rule step_preserves_heap_all [OF assms(1,2)])
  from assms(3) show "heap_all source_inv (heap w)" by (simp add: heap_inv_heap_all)
  show "source_inv v" if "new ops fid t = Inr v" for fid t v
    using that by (auto simp: new_eq source_inv_def split: option.splits)
  show "source_inv v" if "source_inv s" "replace ops s t = Inr v" for s t v
    using that by (auto simp: replace_eq source_inv_def split: option.splits)
  show "source_inv v"
    if "ev = Edit_At i r x" "slots w ! i = Some a" "source_inv (arc_get (heap w) a)"
      "edit ops (arc_get (heap w) a) r x = Inr (v, rg)" for i a r x v rg
    using that assms(4) safe_edit_inv [of "arc_get (heap w) a" r x ops v rg] by simp
qed

end
