(* ===== verification/Table_Invariant.thy ===== *)
theory Table_Invariant
  imports Edit_Protocol
begin

text \<open>
  What every operation of \<^verbatim>\<open>source.rs\<close> keeps of the line table, whether or not the
  table is the table of the text. \<^verbatim>\<open>edit\<close> can leave a table that differs from
  \<^verbatim>\<open>lines\<close> of the new text; it still leaves a table that is not empty, strictly
  increasing in both offsets and inside the text, which is what the binary search of the
  queries needs. The theory proves this of \<^verbatim>\<open>new\<close>, \<^verbatim>\<open>synthesized\<close>, \<^verbatim>\<open>replace\<close> and \<^verbatim>\<open>edit\<close>
  without any condition on the edit, and that \<^verbatim>\<open>replace\<close> brings every snapshot back to
  the invariant \<open>source_inv\<close>.
\<close>

section \<open>Well-formed tables\<close>

definition table_wf :: "'n repr \<Rightarrow> bool" where
  "table_wf s \<longleftrightarrow>
     repr_lines s \<noteq> []
     \<and> sorted_wrt (<) (map byte_idx (repr_lines s))
     \<and> sorted_wrt (<) (map utf16_idx (repr_lines s))
     \<and> list_all (\<lambda>l. byte_idx l \<le> str_len (repr_text s)) (repr_lines s)"

lemma lines_within: "l \<in> set (lines t) \<Longrightarrow> byte_idx l \<le> str_len t"
  using line_starts_bounds [of l 0 0 t] by (auto simp: lines_eq entry_def)

lemma source_inv_table_wf: "source_inv s \<Longrightarrow> table_wf s"
  by (simp add: table_wf_def source_inv_def sorted_lines_byte sorted_lines_utf16 list_all_iff
      lines_within)

text \<open>The snapshots that the operations return, whatever the ranges of the edits are.\<close>

inductive obtainable :: "('n, 'e, 'm, 'l) syntax_ops \<Rightarrow> 'n repr \<Rightarrow> bool"
  for ops :: "('n, 'e, 'm, 'l) syntax_ops" where
  obtain_new: "new ops fid t = Inr s \<Longrightarrow> obtainable ops s"
| obtain_synthesized: "obtainable ops (synthesized ops t sp)"
| obtain_step: "obtainable ops s \<Longrightarrow> apply_op ops s op = Inr s' \<Longrightarrow> obtainable ops s'"

section \<open>The search on a well-formed table\<close>

lemma byte_to_line_SomeD:
  assumes "sorted_wrt (<) (map byte_idx (repr_lines s))" and "byte_to_line s b = Inr (Some i)"
  shows "i < length (repr_lines s)" and "byte_idx (repr_lines s ! i) \<le> b"
proof -
  let ?ks = "map byte_idx (repr_lines s)"
  from assms(2) have "pred_usize (rank ?ks b) = Inr i"
    by (auto simp: byte_to_line_def search_rank_by_key [OF assms(1)] rbind_eq_Inr_iff
        split: if_splits)
  then have r: "0 < rank ?ks b" "i = rank ?ks b - 1"
    by (auto simp: pred_usize_def split: if_splits)
  with rank_le_length [of ?ks b] show "i < length (repr_lines s)" by simp
  with rank_nth_le [OF assms(1) r(1)] r(2) show "byte_idx (repr_lines s ! i) \<le> b" by simp
qed

lemma byte_to_utf16_SomeD:
  assumes "byte_to_line s b = Inr (Some i)" and "byte_to_utf16 s b = Inr (Some u)"
  shows "utf16_idx (repr_lines s ! i) \<le> u"
  using assms
  by (auto simp: byte_to_utf16_def try_opt_eq_Some_iff get_at_eq_Some_iff)

text \<open>The records up to an index of a strictly increasing table are at most the record there.\<close>

lemma sorted_take_le:
  assumes "sorted_wrt (<) (map k xs)" and "i < length xs" and "x \<in> set (take (Suc i) xs)"
  shows "k x \<le> (k (xs ! i) :: nat)"
proof -
  from assms(3) obtain j where j: "j < Suc i" "x = xs ! j"
    using assms(2) by (auto simp: in_set_conv_nth)
  show ?thesis
  proof (cases "j = i")
    case True
    with j show ?thesis by simp
  next
    case False
    with j assms(2) have "j < i" "i < length (map k xs)" by simp_all
    with assms(1) have "map k xs ! j < map k xs ! i" by (simp add: sorted_wrt_iff_nth_less)
    with \<open>j < i\<close> assms(2) j show ?thesis by simp
  qed
qed

section \<open>The edit without the invariant\<close>

text \<open>The edit on a text split at the range, with the two queries that it starts with.\<close>

lemma edit_unfold:
  assumes "repr_text s = p @ m @ q"
  shows "edit ops s (str_len p, str_len p + str_len m) w =
     rbind (rbind (byte_to_utf16 s (str_len p)) unwrap) (\<lambda>u.
     rbind (rbind (byte_to_line s (str_len p)) unwrap) (\<lambda>i.
     let ls = take (i + 1) (repr_lines s);
         ls = (if ends_with p CR \<and> starts_with w LF then butlast ls else ls);
         res = reparse ops (repr_root s) (p @ w @ q) (str_len p, str_len p + str_len m) (str_len w)
     in Inr (s\<lparr>repr_text := p @ w @ q,
                repr_lines := ls @ line_starts (str_len p) u (w @ q),
                repr_root := fst res\<rparr>, snd res)))"
  using assms by (simp add: edit_def lines_from_eq Let_def split_beta)

lemma line_starts_LF: "starts_with w LF \<Longrightarrow> line_starts b u (w @ q) \<noteq> []"
  by (cases w; cases "tl w @ q") (auto simp: starts_with_def is_newline_def line_break_def)

text \<open>The records that the edit keeps of the old table are in the order of the table.\<close>

lemma sorted_kept:
  fixes k :: "'a \<Rightarrow> nat"
  assumes "sorted_wrt (<) (map k xs)"
  shows "sorted_wrt (<) (map k (if c then butlast (take n xs) else take n xs))"
proof -
  from assms have "sorted_wrt (<) (take n (map k xs))" by (rule sorted_wrt_take)
  then have 1: "sorted_wrt (<) (map k (take n xs))" by (simp add: take_map)
  then have "sorted_wrt (<) (butlast (map k (take n xs)))"
    by (simp add: butlast_conv_take sorted_wrt_take)
  with 1 show ?thesis by (simp add: map_butlast)
qed

lemma edit_table_wf:
  assumes "table_wf s" and "edit ops s r w = Inr (s', reparsed)"
  shows "table_wf s'"
proof -
  obtain a e where r: "r = (a, e)" by (cases r)
  from edit_InrD [OF assms(2) [unfolded r]] obtain p m q
    where t: "repr_text s = p @ m @ q" and a: "a = str_len p" and e: "e = str_len p + str_len m"
    by (elim conjE range_split)
  let ?ls = "repr_lines s"
  from assms(1) have sb: "sorted_wrt (<) (map byte_idx ?ls)"
    and su: "sorted_wrt (<) (map utf16_idx ?ls)" and ne: "?ls \<noteq> []"
    by (simp_all add: table_wf_def)
  from assms(2) obtain u i where u: "byte_to_utf16 s (str_len p) = Inr (Some u)"
    and i: "byte_to_line s (str_len p) = Inr (Some i)"
    and s': "repr_text s' = p @ w @ q"
      "repr_lines s' = (if ends_with p CR \<and> starts_with w LF then butlast (take (i + 1) ?ls)
           else take (i + 1) ?ls) @ line_starts (str_len p) u (w @ q)"
    unfolding r a e edit_unfold [OF t]
    by (auto simp: rbind_eq_Inr_iff unwrap_def Let_def split: option.splits)
  let ?old = "if ends_with p CR \<and> starts_with w LF then butlast (take (i + 1) ?ls)
    else take (i + 1) ?ls"
  let ?new = "line_starts (str_len p) u (w @ q)"
  note il = byte_to_line_SomeD [OF sb i]
  have old_sub: "set ?old \<subseteq> set (take (Suc i) ?ls)"
    by (auto dest: in_set_butlastD)
  have old_b: "byte_idx x \<le> str_len p" if "x \<in> set ?old" for x
    using sorted_take_le [OF sb il(1), of x] il(2) that old_sub by auto
  have old_u: "utf16_idx x \<le> u" if "x \<in> set ?old" for x
    using sorted_take_le [OF su il(1), of x] byte_to_utf16_SomeD [OF i u] that old_sub by auto
  have new_b: "str_len p < byte_idx y \<and> byte_idx y \<le> str_len (p @ w @ q) \<and> u < utf16_idx y"
    if "y \<in> set ?new" for y
    using line_starts_bounds [OF that] by simp
  note sorted_old = sorted_kept [where n = "i + 1" and xs = ?ls
      and c = "ends_with p CR \<and> starts_with w LF"]
  have "?old @ ?new \<noteq> []"
    using ne line_starts_LF [of w "str_len p" u q] by auto
  moreover have "sorted_wrt (<) (map byte_idx (?old @ ?new))"
    using sorted_old [OF sb] sorted_line_starts_byte [of "str_len p" u "w @ q"] old_b new_b
    by (fastforce simp: sorted_wrt_append)
  moreover have "sorted_wrt (<) (map utf16_idx (?old @ ?new))"
    using sorted_old [OF su] sorted_line_starts_utf16 [of "str_len p" u "w @ q"] old_u new_b
    by (fastforce simp: sorted_wrt_append)
  moreover have "list_all (\<lambda>l. byte_idx l \<le> str_len (p @ w @ q)) (?old @ ?new)"
    using old_b new_b by (fastforce simp: list_all_iff)
  ultimately show ?thesis by (simp add: table_wf_def s')
qed

lemma apply_op_table_wf:
  assumes "table_wf s" and "apply_op ops s op = Inr s'"
  shows "table_wf s'"
proof (cases op)
  case (Replace t)
  with assms(2) have "source_inv s'"
    by (auto simp: apply_op_def replace_eq source_inv_def split: option.splits)
  then show ?thesis by (rule source_inv_table_wf)
next
  case (Edit r w)
  with assms(2) obtain reparsed where "edit ops s r w = Inr (s', reparsed)"
    by (auto simp: apply_op_def rbind_eq_Inr_iff)
  with assms(1) show ?thesis by (rule edit_table_wf)
qed

section \<open>The queries on a well-formed table\<close>

text \<open>
  On a well-formed table \<^verbatim>\<open>byte_to_line\<close> panics exactly when the first record lies
  beyond the offset, which the invariant excludes and well-formedness does not.
\<close>

lemma byte_to_line_table_wf:
  assumes "table_wf s" and "b \<le> str_len (repr_text s)"
  shows "byte_to_line s b =
     (if byte_idx (hd (repr_lines s)) \<le> b
      then Inr (Some (rank (map byte_idx (repr_lines s)) b - 1)) else Inl Sub_Overflow)"
proof -
  let ?ks = "map byte_idx (repr_lines s)"
  from assms(1) have sb: "sorted_wrt (<) ?ks" and ne: "repr_lines s \<noteq> []"
    by (simp_all add: table_wf_def)
  from ne obtain l ls where ls: "repr_lines s = l # ls" by (cases "repr_lines s") auto
  have "rank ?ks b = 0 \<longleftrightarrow> b < byte_idx l"
  proof
    assume "b < byte_idx l"
    moreover from sb ls have "\<forall>x \<in> set ls. byte_idx l < byte_idx x" by simp
    ultimately show "rank ?ks b = 0"
      unfolding ls by (auto simp: rank_map filter_empty_conv)
  qed (simp add: ls split: if_splits)
  then have "pred_usize (rank ?ks b) =
      (if byte_idx (hd (repr_lines s)) \<le> b then Inr (rank ?ks b - 1) else Inl Sub_Overflow)"
    by (auto simp: pred_usize_def ls)
  with assms(2) show ?thesis
    by (simp add: byte_to_line_def search_rank_by_key [OF sb])
qed

section \<open>A snapshot with a wrong table\<close>

text \<open>
  What the insertion of \<^verbatim>\<open>\n\<close> between the two characters of the text \<^verbatim>\<open>\r\n\<close> leaves: the
  table has lost the record of offset zero.
\<close>

definition broken_snapshot :: "rstr repr" where
  "broken_snapshot =
     \<lparr>repr_id = Detached, repr_text = [CR, LF, LF], repr_root = [CR, LF, LF],
      repr_lines = [\<lparr>byte_idx = 2, utf16_idx = 2\<rparr>, \<lparr>byte_idx = 3, utf16_idx = 3\<rparr>]\<rparr>"

lemma edit_broken_snapshot:
  "apply_op text_ops (snapshot [CR, LF]) (Edit (1, 1) [LF]) = Inr broken_snapshot"
proof -
  have t: "repr_text (snapshot [CR, LF]) = [CR] @ [] @ [LF]" by simp
  show ?thesis
    using edit_split [OF source_inv_snapshot t, of text_ops "[LF]"]
    by (simp add: apply_op_def broken_snapshot_def Let_def text_ops_def snapshot_def eval_edit)
qed

lemma obtainable_broken_snapshot: "obtainable text_ops broken_snapshot"
proof -
  have "new text_ops Detached [CR, LF] = Inr (snapshot [CR, LF])"
    using detached_text_ops [of "[CR, LF]"] by (simp add: detached_def)
  then have "obtainable text_ops (snapshot [CR, LF])" by (rule obtain_new)
  then show ?thesis using edit_broken_snapshot by (rule obtain_step)
qed

lemma broken_snapshot_not_inv: "\<not> source_inv broken_snapshot"
  by (simp add: source_inv_def broken_snapshot_def eval_lines)

section \<open>Properties of every snapshot\<close>

text \<open>
  C13. Every snapshot that the operations return has a well-formed line table: the
  table is not empty, its byte offsets and its UTF-16 offsets increase strictly, and no
  record lies beyond the text. This holds after every edit that returns, also after the
  edits that leave a table which is not the table of the text, so the binary search of
  the queries always runs on a sorted table.
\<close>

theorem obtainable_table_wf:
  assumes "obtainable ops s"
  shows "table_wf s"
  using assms
proof (induction rule: obtainable.induct)
  case (obtain_new fid t s)
  then have "source_inv s" by (auto simp: new_eq source_inv_def split: option.splits)
  then show ?case by (rule source_inv_table_wf)
next
  case (obtain_synthesized t sp)
  show ?case by (rule source_inv_table_wf) (simp add: synthesized_def source_inv_def)
next
  case (obtain_step s op s')
  then show ?case by (blast intro: apply_op_table_wf)
qed

theorem obtainable_table_wf_witness:
  "obtainable text_ops broken_snapshot \<and> table_wf broken_snapshot
   \<and> \<not> source_inv broken_snapshot"
  using obtainable_table_wf [OF obtainable_broken_snapshot] obtainable_broken_snapshot
    broken_snapshot_not_inv
  by simp

text \<open>
  C17. The invariant can always be reached again. From every snapshot, whatever its
  table is, \<^verbatim>\<open>replace\<close> with the text of the snapshot returns when the numbering of a
  fresh tree succeeds, and it returns a snapshot of the same text and identity whose
  table is the table of the text, on which \<^verbatim>\<open>byte_to_line\<close> returns for every offset. A
  caller whose edit has left a wrong table repairs it with one call.
\<close>

theorem replace_recovers:
  assumes "numbering_total ops"
  shows "\<exists>s'. apply_op ops s (Replace (repr_text s)) = Inr s'
    \<and> repr_text s' = repr_text s \<and> repr_id s' = repr_id s \<and> source_inv s'
    \<and> (\<forall>b. no_panic (byte_to_line s' b))"
proof -
  from assms obtain node where "numberize ops (parse ops (repr_text s)) (repr_id s) = Some node"
    by (auto simp: numbering_total_def)
  then have r: "apply_op ops s (Replace (repr_text s))
      = Inr (s\<lparr>repr_lines := lines (repr_text s), repr_root := node\<rparr>)"
    by (simp add: apply_op_def replace_eq)
  have "source_inv (s\<lparr>repr_lines := lines (repr_text s), repr_root := node\<rparr>)"
    by (simp add: source_inv_def)
  with r show ?thesis by (auto simp: byte_to_line_inv)
qed

theorem replace_recovers_witness:
  "numbering_total text_ops
   \<and> byte_to_line broken_snapshot 0 = Inl Sub_Overflow
   \<and> apply_op text_ops broken_snapshot (Replace [CR, LF, LF]) = Inr (snapshot [CR, LF, LF])
   \<and> byte_to_line (snapshot [CR, LF, LF]) 0 = Inr (Some 0)"
proof -
  have 1: "byte_to_line broken_snapshot 0 = Inl Sub_Overflow"
    by (simp add: broken_snapshot_def eval_query)
  have 2: "apply_op text_ops broken_snapshot (Replace [CR, LF, LF]) = Inr (snapshot [CR, LF, LF])"
    by (simp add: apply_op_def replace_eq text_ops_def broken_snapshot_def snapshot_def)
  have 3: "byte_to_line (snapshot [CR, LF, LF]) 0 = Inr (Some 0)"
    by (simp add: eval_query)
  from replace_recovers [OF numbering_total_text_ops, of broken_snapshot] 1 2 3
  show ?thesis by simp
qed

end
