(* ===== verification/Release_Build.thy ===== *)
theory Release_Build
  imports Table_Invariant "HOL-Library.Word"
begin

text \<open>
  The position queries of \<^verbatim>\<open>source.rs\<close> and \<^verbatim>\<open>edit\<close>, which unwraps two of them, as a
  build without overflow checks runs them.
  The other theories give \<^verbatim>\<open>i - 1\<close> at zero the panic of a build with overflow checks;
  without them the subtraction wraps, and the index is \<^verbatim>\<open>usize::MAX\<close>. Here \<^verbatim>\<open>usize\<close> is
  a word of 64 bits and the subtraction is the subtraction of words; an index into the
  table is read from the word. The theorems say when the two builds agree, and what the
  wrapped index does to each query and to the edit.
\<close>

section \<open>The queries without overflow checks\<close>

type_synonym usize = "64 word"

text \<open>\<^verbatim>\<open>Ok(i) => i, Err(i) => i - 1\<close> on \<^verbatim>\<open>usize\<close>.\<close>

definition search_rank_wrapping :: "found \<Rightarrow> usize" where
  "search_rank_wrapping r = (case r of Ok i \<Rightarrow> of_nat i | Err i \<Rightarrow> of_nat i - 1)"

definition byte_to_line_release :: "'n repr \<Rightarrow> nat \<Rightarrow> usize option" where
  "byte_to_line_release s byte =
     (if byte \<le> str_len (repr_text s)
      then Some (search_rank_wrapping (binary_search_by_key (repr_lines s) byte byte_idx))
      else None)"

definition byte_to_utf16_release :: "'n repr \<Rightarrow> nat \<Rightarrow> nat option" where
  "byte_to_utf16_release s byte =
     (case byte_to_line_release s byte of
        None \<Rightarrow> None
      | Some line_idx \<Rightarrow>
          (case get_at (repr_lines s) (unat line_idx) of
             None \<Rightarrow> None
           | Some line \<Rightarrow>
               (case str_get (repr_text s) (byte_idx line) byte of
                  None \<Rightarrow> None
                | Some head \<Rightarrow> Some (utf16_idx line + str_len_utf16 head))))"

definition byte_to_column_release :: "'n repr \<Rightarrow> nat \<Rightarrow> nat option" where
  "byte_to_column_release s byte =
     (case byte_to_line_release s byte of
        None \<Rightarrow> None
      | Some line \<Rightarrow>
          (case line_to_byte s (unat line) of
             None \<Rightarrow> None
           | Some start \<Rightarrow>
               (case get s (start, byte) of
                  None \<Rightarrow> None
                | Some head \<Rightarrow> Some (length head))))"

text \<open>The slice of the text in \<^verbatim>\<open>utf16_to_byte\<close> panics in every build.\<close>

definition utf16_to_byte_release :: "'n repr \<Rightarrow> nat \<Rightarrow> nat option result" where
  "utf16_to_byte_release s utf16 =
     (case get_at (repr_lines s)
             (unat (search_rank_wrapping (binary_search_by_key (repr_lines s) utf16 utf16_idx))) of
        None \<Rightarrow> Inr None
      | Some line \<Rightarrow>
          rbind (str_from (repr_text s) (byte_idx line)) (\<lambda>tail.
          Inr (utf16_scan utf16 (str_len (repr_text s)) (utf16_idx line) (byte_idx line) tail)))"

text \<open>
  \<^verbatim>\<open>edit\<close> without overflow checks: the two queries of the start of the range return
  options, which are unwrapped, and \<^verbatim>\<open>line + 1\<close> wraps. The additions of \<^verbatim>\<open>lines_from\<close>
  stay below the length of the text and are left as they are.
\<close>

definition edit_release ::
  "('n, 'e, 'm, 'l) syntax_ops \<Rightarrow> 'n repr \<Rightarrow> byte_range \<Rightarrow> rstr \<Rightarrow> ('n repr \<times> byte_range) result"
  where
  "edit_release ops s r w =
     (let start_byte = fst r in
      rbind (unwrap (byte_to_utf16_release s start_byte)) (\<lambda>start_utf16.
      rbind (unwrap (byte_to_line_release s start_byte)) (\<lambda>line.
      rbind (replace_range (repr_text s) (fst r) (snd r) w) (\<lambda>text.
      let ls = take (unat (line + 1)) (repr_lines s) in
      rbind (str_to text start_byte) (\<lambda>head.
      let ls = (if ends_with head CR \<and> starts_with w LF then butlast ls else ls) in
      rbind (str_from text start_byte) (\<lambda>tail.
      let ls = ls @ lines_from start_byte start_utf16 tail;
          (node, reparsed) = reparse ops (repr_root s) text r (str_len w)
      in Inr (s\<lparr>repr_text := text, repr_lines := ls, repr_root := node\<rparr>, reparsed)))))))"

text \<open>
  \<^verbatim>\<open>line_to_range\<close> takes the line index from its caller, so it can be any word;
  \<^verbatim>\<open>line_idx + 1\<close> wraps at \<^verbatim>\<open>usize::MAX\<close>.
\<close>

definition line_to_range_release :: "'n repr \<Rightarrow> usize \<Rightarrow> byte_range option" where
  "line_to_range_release s line_idx =
     (case line_to_byte s (unat line_idx) of
        None \<Rightarrow> None
      | Some start \<Rightarrow>
          Some (start,
            (case line_to_byte s (unat (line_idx + 1)) of
               None \<Rightarrow> str_len (repr_text s)
             | Some e \<Rightarrow> e)))"

section \<open>The wrapped index\<close>

lemma unat_of_nat_usize: "i < 2 ^ 64 \<Longrightarrow> unat (of_nat i :: usize) = i"
  by (simp add: unat_of_nat take_bit_nat_eq_self)

lemma unat_minus_one_usize: "unat (- 1 :: usize) = 2 ^ 64 - 1"
  by (simp add: unsigned_minus_1_eq_mask mask_eq_exp_minus_1)

text \<open>The two readings of the search: the same index, or the panic and the greatest word.\<close>

lemma search_rank_wrapping_eq:
  "search_rank_wrapping r =
     (case search_rank r of Inr i \<Rightarrow> of_nat i | Inl p \<Rightarrow> - 1)"
  by (cases r) (auto simp: search_rank_wrapping_def search_rank_def pred_usize_def)

lemma search_rank_le_length:
  assumes "sorted_wrt (<) (map key xs)" and "search_rank (binary_search_by_key xs b key) = Inr i"
  shows "i < length xs"
proof -
  from assms have "pred_usize (rank (map key xs) b) = Inr i"
    by (simp add: search_rank_by_key)
  then have "0 < rank (map key xs) b" "i = rank (map key xs) b - 1"
    by (auto simp: pred_usize_def split: if_splits)
  with rank_le_length [of "map key xs" b] show ?thesis by simp
qed

section \<open>The two builds\<close>

text \<open>
  \<^verbatim>\<open>byte_to_line\<close> without overflow checks returns what the checked build returns, and
  \<^verbatim>\<open>usize::MAX\<close> where the checked build panics.
\<close>

lemma byte_to_line_release_eq:
  "byte_to_line_release s b =
     (case byte_to_line s b of Inr v \<Rightarrow> map_option of_nat v | Inl p \<Rightarrow> Some (- 1))"
  by (simp add: byte_to_line_release_def byte_to_line_def search_rank_wrapping_eq rbind_def
      split: sum.split)

text \<open>
  The other queries look the wrapped index up in the table, find nothing there, and
  return \<^verbatim>\<open>None\<close>; with an index that did not wrap they return what the checked build
  returns.
\<close>

lemma get_at_wrapped:
  "length xs < 2 ^ 64 \<Longrightarrow> get_at xs (unat (- 1 :: usize)) = None"
  by (simp add: get_at_def unat_minus_one_usize)

text \<open>The three outcomes of \<^verbatim>\<open>byte_to_line\<close> in the two builds, on a table that fits the index.\<close>

lemma byte_to_line_release_cases:
  assumes "table_wf s" and "length (repr_lines s) < 2 ^ 64"
  obtains (wrapped) "byte_to_line s b = Inl Sub_Overflow" "byte_to_line_release s b = Some (- 1)"
  | (absent) "byte_to_line s b = Inr None" "byte_to_line_release s b = None"
  | (index) i where "byte_to_line s b = Inr (Some i)"
      "byte_to_line_release s b = Some (of_nat i)" "unat (of_nat i :: usize) = i"
      "i < length (repr_lines s)"
proof (cases "byte_to_line s b")
  case (Inl p)
  then have "p = Sub_Overflow"
    by (auto simp: byte_to_line_def search_rank_def pred_usize_def rbind_def
        split: found.splits if_splits sum.splits)
  with Inl wrapped show ?thesis by (simp add: byte_to_line_release_eq)
next
  case (Inr v)
  show ?thesis
  proof (cases v)
    case None
    with Inr absent show ?thesis by (simp add: byte_to_line_release_eq)
  next
    case (Some i)
    from assms(1) have "sorted_wrt (<) (map byte_idx (repr_lines s))" by (simp add: table_wf_def)
    from byte_to_line_SomeD(1) [OF this Inr [unfolded Some]]
    have "i < length (repr_lines s)" .
    with assms(2) Inr Some index [of i] show ?thesis
      by (simp add: byte_to_line_release_eq unat_of_nat_usize)
  qed
qed

lemma byte_to_utf16_release_eq:
  assumes "table_wf s" and "length (repr_lines s) < 2 ^ 64"
  shows "byte_to_utf16_release s b =
     (case byte_to_utf16 s b of Inr v \<Rightarrow> v | Inl p \<Rightarrow> None)"
  using assms
  by (cases rule: byte_to_line_release_cases [where s = s and b = b])
    (simp_all add: byte_to_utf16_release_def byte_to_utf16_def get_at_wrapped [OF assms(2)] try_opt_def
      split: option.split)

lemma byte_to_column_release_eq:
  assumes "table_wf s" and "length (repr_lines s) < 2 ^ 64"
  shows "byte_to_column_release s b =
     (case byte_to_column s b of Inr v \<Rightarrow> v | Inl p \<Rightarrow> None)"
  using assms
  by (cases rule: byte_to_line_release_cases [where s = s and b = b])
    (simp_all add: byte_to_column_release_def byte_to_column_def get_at_wrapped [OF assms(2)] try_opt_def
      line_to_byte_def split: option.split)

lemma utf16_to_byte_release_eq:
  assumes "table_wf s" and "length (repr_lines s) < 2 ^ 64"
  shows "utf16_to_byte_release s u =
     (case utf16_to_byte s u of Inl Sub_Overflow \<Rightarrow> Inr None | r \<Rightarrow> r)"
proof (cases "search_rank (binary_search_by_key (repr_lines s) u utf16_idx)")
  case (Inl p)
  then have "p = Sub_Overflow"
    by (auto simp: search_rank_def pred_usize_def split: found.splits if_splits)
  with Inl assms(2) show ?thesis
    by (simp add: utf16_to_byte_release_def utf16_to_byte_def search_rank_wrapping_eq
        get_at_wrapped)
next
  case (Inr i)
  from assms(1) have "sorted_wrt (<) (map utf16_idx (repr_lines s))" by (simp add: table_wf_def)
  from search_rank_le_length [OF this Inr] assms(2)
  have i: "i < length (repr_lines s)" "unat (of_nat i :: usize) = i"
    by (simp_all add: unat_of_nat_usize)
  have "str_from (repr_text s) a \<noteq> Inl Sub_Overflow" for a
    by (auto simp: str_from_def split: option.splits)
  then have "rbind (str_from (repr_text s) a) (\<lambda>tail. Inr (f tail)) \<noteq> Inl Sub_Overflow"
    for a and f :: "rstr \<Rightarrow> nat option"
    by (cases "str_from (repr_text s) a") (auto simp: rbind_def)
  with Inr i show ?thesis
    by (auto simp: utf16_to_byte_release_def utf16_to_byte_def search_rank_wrapping_eq
        split: sum.split panic.split)
qed

text \<open>
  The sum in \<^verbatim>\<open>line_to_range\<close> is computed only for an index into the table, where it
  does not wrap: the function is the same in both builds, for every index.
\<close>

lemma line_to_range_release_eq:
  assumes "length (repr_lines s) < 2 ^ 64"
  shows "line_to_range_release s i = line_to_range s (unat i)"
proof (cases "unat i < length (repr_lines s)")
  case True
  with assms have "unat (i + 1) = unat i + 1" by (simp add: unat_word_ariths)
  then show ?thesis
    by (simp add: line_to_range_release_def line_to_range_def split: option.split)
next
  case False
  then show ?thesis
    by (simp add: line_to_range_release_def line_to_range_def line_to_byte_def get_at_def)
qed

text \<open>The edit in the two builds.\<close>

lemma unat_succ_usize: "i < length xs \<Longrightarrow> length xs < 2 ^ 64 \<Longrightarrow> unat (of_nat i + 1 :: usize) = i + 1"
  using unat_of_nat_usize [of "Suc i"] by (simp add: add.commute)

lemma byte_to_utf16_wrapped: "byte_to_line s b = Inl p \<Longrightarrow> byte_to_utf16 s b = Inl p"
  by (simp add: byte_to_utf16_def try_opt_def)

lemma byte_to_utf16_absent: "byte_to_line s b = Inr None \<Longrightarrow> byte_to_utf16 s b = Inr None"
  by (simp add: byte_to_utf16_def try_opt_def)

lemma byte_to_utf16_no_panic: "byte_to_line s b = Inr v \<Longrightarrow> \<exists>u. byte_to_utf16 s b = Inr u"
  by (auto simp: byte_to_utf16_def try_opt_def split: option.splits)

lemma splice_not_overflow:
  "rbind (replace_range t a e w) (\<lambda>text.
     rbind (str_to text b) (\<lambda>head. rbind (str_from text b) (\<lambda>tail. Inr (f text head tail))))
   \<noteq> Inl Sub_Overflow"
  by (auto simp: rbind_def replace_range_def str_to_def str_from_def split: sum.splits option.splits if_splits)

text \<open>The snapshot with the broken table is well formed and small.\<close>

lemma table_wf_broken_snapshot: "table_wf broken_snapshot"
  by (simp add: table_wf_def broken_snapshot_def char_len_utf8_def)

lemma length_broken_snapshot: "length (repr_lines broken_snapshot) < 2 ^ 64"
  by (simp add: broken_snapshot_def)

section \<open>Properties of the build without overflow checks\<close>

text \<open>
  C14. The line index that \<^verbatim>\<open>byte_to_line\<close> returns without overflow checks, for an
  offset inside the text and a well-formed table of fewer than \<open>2 ^ 64\<close> records: it is
  an index into the table exactly when the first record is at most the offset, and then
  it is the index that the checked build returns; otherwise the subtraction has wrapped,
  the index is \<open>2 ^ 64 - 1\<close>, beyond every table, and the checked build panics.
\<close>

theorem release_line_in_bounds_iff:
  assumes "table_wf s" and "length (repr_lines s) < 2 ^ 64" and "b \<le> str_len (repr_text s)"
  shows "\<exists>i. byte_to_line_release s b = Some i
    \<and> (unat i < len_lines s \<longleftrightarrow> byte_idx (hd (repr_lines s)) \<le> b)
    \<and> (if unat i < len_lines s then byte_to_line s b = Inr (Some (unat i))
        else unat i = 2 ^ 64 - 1 \<and> byte_to_line s b = Inl Sub_Overflow)"
  using assms(1,2)
proof (cases rule: byte_to_line_release_cases [where s = s and b = b])
  case wrapped
  with assms show ?thesis
    by (auto simp: byte_to_line_table_wf unat_minus_one_usize len_lines_def split: if_splits)
next
  case absent
  with assms(3) show ?thesis by (simp add: byte_to_line_release_def)
next
  case (index i)
  with assms show ?thesis
    by (auto simp: byte_to_line_table_wf len_lines_def split: if_splits)
qed

theorem release_line_in_bounds_iff_witness:
  "table_wf broken_snapshot \<and> length (repr_lines broken_snapshot) < 2 ^ 64
   \<and> 0 \<le> str_len (repr_text broken_snapshot)
   \<and> byte_to_line_release broken_snapshot 0 = Some 18446744073709551615
   \<and> byte_to_line_release broken_snapshot 2 = Some 0
   \<and> len_lines broken_snapshot = 2"
proof -
  note 1 = table_wf_broken_snapshot and 2 = length_broken_snapshot
  have 3: "byte_to_line_release broken_snapshot 0 = Some 18446744073709551615"
    "byte_to_line_release broken_snapshot 2 = Some 0"
    by (simp_all add: byte_to_line_release_def search_rank_wrapping_def broken_snapshot_def
        binary_search_by_key_def binary_search_loop.simps char_len_utf8_def)
  from release_line_in_bounds_iff [OF 1 2, of 0] 1 2 3 show ?thesis
    by (simp add: len_lines_def broken_snapshot_def)
qed

text \<open>
  C15. The build without overflow checks refines the checked build on every well-formed
  table of fewer than \<open>2 ^ 64\<close> records: \<^verbatim>\<open>byte_to_utf16\<close>, \<^verbatim>\<open>byte_to_column\<close> and
  \<^verbatim>\<open>utf16_to_byte\<close> return what the checked build returns, and \<^verbatim>\<open>None\<close> where the checked
  build panics in the subtraction; the panic of the slice in \<^verbatim>\<open>utf16_to_byte\<close> is the
  same in both.
\<close>

theorem release_refines_checked:
  assumes "table_wf s" and "length (repr_lines s) < 2 ^ 64"
  shows "byte_to_utf16_release s b = (case byte_to_utf16 s b of Inr v \<Rightarrow> v | Inl p \<Rightarrow> None)
    \<and> byte_to_column_release s b = (case byte_to_column s b of Inr v \<Rightarrow> v | Inl p \<Rightarrow> None)
    \<and> utf16_to_byte_release s u
        = (case utf16_to_byte s u of Inl Sub_Overflow \<Rightarrow> Inr None | r \<Rightarrow> r)"
  using assms
  by (simp add: byte_to_utf16_release_eq byte_to_column_release_eq utf16_to_byte_release_eq)

theorem release_refines_checked_witness:
  "table_wf broken_snapshot \<and> length (repr_lines broken_snapshot) < 2 ^ 64
   \<and> byte_to_utf16 broken_snapshot 0 = Inl Sub_Overflow
   \<and> byte_to_utf16_release broken_snapshot 0 = None
   \<and> utf16_to_byte_release broken_snapshot 0 = Inr None
   \<and> byte_to_utf16_release broken_snapshot 3 = Some 3"
proof -
  note 1 = table_wf_broken_snapshot and 2 = length_broken_snapshot
  have 3: "byte_to_utf16 broken_snapshot 0 = Inl Sub_Overflow"
    "byte_to_utf16 broken_snapshot 3 = Inr (Some 3)"
    "utf16_to_byte broken_snapshot 0 = Inl Sub_Overflow"
    by (simp_all add: broken_snapshot_def eval_query)
  from release_refines_checked [OF 1 2, of 0 0] release_refines_checked [OF 1 2, of 3 0] 1 2 3
  show ?thesis by simp
qed

text \<open>
  C16. \<^verbatim>\<open>edit\<close> is the same in both builds but for the kind of one panic. On a
  well-formed table of fewer than \<open>2 ^ 64\<close> records the edit without overflow checks
  returns what the checked edit returns and panics where it panics; where the checked
  edit panics in the subtraction, the unchecked one panics in the \<^verbatim>\<open>unwrap\<close> of
  \<^verbatim>\<open>byte_to_utf16\<close>, before it has changed anything, so the wrapped line index never
  reaches the table.
\<close>

theorem edit_release_refines:
  assumes "table_wf s" and "length (repr_lines s) < 2 ^ 64"
  shows "edit_release ops s r w =
     (case edit ops s r w of Inl Sub_Overflow \<Rightarrow> Inl Unwrap_None | x \<Rightarrow> x)"
  using assms
proof (cases rule: byte_to_line_release_cases [where s = s and b = "fst r"])
  case wrapped
  with byte_to_utf16_wrapped [OF wrapped(1)] byte_to_utf16_release_eq [OF assms, of "fst r"]
  show ?thesis by (simp add: edit_release_def edit_def)
next
  case absent
  with byte_to_utf16_absent [OF absent(1)] byte_to_utf16_release_eq [OF assms, of "fst r"]
  show ?thesis by (simp add: edit_release_def edit_def)
next
  case (index i)
  from byte_to_utf16_no_panic [OF index(1)] obtain u where u: "byte_to_utf16 s (fst r) = Inr u" ..
  with byte_to_utf16_release_eq [OF assms, of "fst r"]
  have ur: "byte_to_utf16_release s (fst r) = u" by simp
  show ?thesis
  proof (cases u)
    case None
    with u ur show ?thesis by (simp add: edit_release_def edit_def)
  next
    case (Some k)
    have "edit_release ops s r w = edit ops s r w"
      using u ur Some index unat_succ_usize [OF index(4) assms(2)]
      by (simp add: edit_release_def edit_def)
    moreover have "edit ops s r w \<noteq> Inl Sub_Overflow"
      using u Some index(1) splice_not_overflow [of "repr_text s" "fst r" "snd r" w "fst r"]
      by (simp add: edit_def Let_def split_beta)
    ultimately show ?thesis by (auto split: sum.split panic.split)
  qed
qed

theorem edit_release_refines_witness:
  "table_wf broken_snapshot \<and> length (repr_lines broken_snapshot) < 2 ^ 64
   \<and> edit text_ops broken_snapshot (0, 0) [120] = Inl Sub_Overflow
   \<and> edit_release text_ops broken_snapshot (0, 0) [120] = Inl Unwrap_None
   \<and> edit_release text_ops broken_snapshot (4, 4) [120] = Inl Unwrap_None"
proof -
  note 1 = table_wf_broken_snapshot and 2 = length_broken_snapshot
  have 3: "edit text_ops broken_snapshot (0, 0) [120] = Inl Sub_Overflow"
    "edit text_ops broken_snapshot (4, 4) [120] = Inl Unwrap_None"
    by (simp_all add: edit_def broken_snapshot_def eval_query)
  from edit_release_refines [OF 1 2, of text_ops "(0, 0)" "[120]"]
    edit_release_refines [OF 1 2, of text_ops "(4, 4)" "[120]"] 1 2 3
  show ?thesis by simp
qed

end
