(* ===== verification/Syntax_Tree.thy ===== *)
theory Syntax_Tree
  imports Table_Invariant
begin

text \<open>
  The tree side of the boundary of \<^verbatim>\<open>source.rs\<close>, from the contracts that the
  specification gives for it: a tree of nodes that carry spans, the numbering of a tree in
  pre-order under an identity, the uniform span of a synthesized tree, and the lookup
  of a node by its span, which returns the node with the byte offset at which it starts.
  The parser stays a parameter. \<open>tree_ops\<close> packs the four as an instance of the
  interface \<open>syntax_ops\<close>, with the reparser that gives up and parses the whole text
  again, so that \<^verbatim>\<open>new\<close>, \<^verbatim>\<open>synthesized\<close>, \<^verbatim>\<open>replace\<close>, \<^verbatim>\<open>edit\<close> and \<^verbatim>\<open>find\<close> of
  \<^verbatim>\<open>Source\<close> run on trees. The theorems say what the snapshot operations then
  guarantee of the tree they store.
\<close>

section \<open>Nodes\<close>

datatype syntax_node =
  Leaf (node_span: span) rstr
| Inner (node_span: span) "syntax_node list"

text \<open>The number of bytes of text under a node.\<close>

primrec node_len :: "syntax_node \<Rightarrow> nat" where
  "node_len (Leaf sp t) = str_len t"
| "node_len (Inner sp cs) = sum_list (map node_len cs)"

section \<open>Numbering\<close>

text \<open>
  Numbering walks the tree in pre-order with a counter: a node takes the identity and
  the counter as its span, its children take the numbers that follow. The result is the
  numbered tree and the first number that is free.
\<close>

primrec numberize_node :: "file_id \<Rightarrow> syntax_node \<Rightarrow> nat \<Rightarrow> syntax_node \<times> nat"
  and numberize_children :: "file_id \<Rightarrow> syntax_node list \<Rightarrow> nat \<Rightarrow> syntax_node list \<times> nat"
where
  "numberize_node fid (Leaf sp t) n = (Leaf (fid, n) t, Suc n)"
| "numberize_node fid (Inner sp cs) n =
     (case numberize_children fid cs (Suc n) of (cs', k) \<Rightarrow> (Inner (fid, n) cs', k))"
| "numberize_children fid [] n = ([], n)"
| "numberize_children fid (c # cs) n =
     (case numberize_node fid c n of (c', k) \<Rightarrow>
        (case numberize_children fid cs k of (cs', k') \<Rightarrow> (c' # cs', k')))"

text \<open>A synthesized tree carries one span on every node.\<close>

primrec synthesize_node :: "span \<Rightarrow> syntax_node \<Rightarrow> syntax_node" where
  "synthesize_node sp (Leaf sp' t) = Leaf sp t"
| "synthesize_node sp (Inner sp' cs) = Inner sp (map (synthesize_node sp) cs)"

section \<open>Lookup\<close>

text \<open>
  The lookup walks the tree in pre-order from a byte offset and returns the first node
  that carries the span, with the offset at which the node starts.
\<close>

type_synonym linked_node = "syntax_node \<times> nat"

primrec find_in :: "nat \<Rightarrow> syntax_node \<Rightarrow> span \<Rightarrow> linked_node option"
  and find_children :: "nat \<Rightarrow> syntax_node list \<Rightarrow> span \<Rightarrow> linked_node option"
where
  "find_in off (Leaf sp' t) sp = (if sp' = sp then Some (Leaf sp' t, off) else None)"
| "find_in off (Inner sp' cs) sp =
     (if sp' = sp then Some (Inner sp' cs, off) else find_children off cs sp)"
| "find_children off [] sp = None"
| "find_children off (c # cs) sp =
     (case find_in off c sp of
        Some l \<Rightarrow> Some l
      | None \<Rightarrow> find_children (off + node_len c) cs sp)"

section \<open>The interface on trees\<close>

text \<open>
  The operations of the interface for a parser \<open>p\<close>. Numbering starts at 0 and does
  not fail; there are no error nodes and the root casts to itself; the reparser parses
  the whole text, numbers the tree under the identity of the old root and reports the
  whole text as reparsed.
\<close>

definition tree_ops ::
  "(rstr \<Rightarrow> syntax_node) \<Rightarrow> (syntax_node, unit, syntax_node, linked_node) syntax_ops" where
  "tree_ops p =
     \<lparr>parse = p,
      numberize = (\<lambda>node fid. Some (fst (numberize_node fid node 0))),
      synthesize = (\<lambda>node sp. synthesize_node sp node),
      errors = (\<lambda>node. []),
      cast = Some,
      find_node = (\<lambda>node sp. find_in 0 node sp),
      reparse = (\<lambda>node t r len.
        (fst (numberize_node (fst (node_span node)) (p t) 0), (0, str_len t)))\<rparr>"

section \<open>What a tree holds\<close>

text \<open>
  The nodes of a tree in pre-order, each with the offset at which it starts, and their
  spans: the vocabulary of the theorems.
\<close>

primrec linked :: "nat \<Rightarrow> syntax_node \<Rightarrow> linked_node list"
  and linked_children :: "nat \<Rightarrow> syntax_node list \<Rightarrow> linked_node list"
where
  "linked off (Leaf sp t) = [(Leaf sp t, off)]"
| "linked off (Inner sp cs) = (Inner sp cs, off) # linked_children off cs"
| "linked_children off [] = []"
| "linked_children off (c # cs) = linked off c @ linked_children (off + node_len c) cs"

definition spans_of :: "syntax_node \<Rightarrow> span list" where
  "spans_of t = map (node_span \<circ> fst) (linked 0 t)"

definition node_count :: "syntax_node \<Rightarrow> nat" where
  "node_count t = length (linked 0 t)"

text \<open>A flat parser for the examples: a root over one leaf for each character.\<close>

definition flat_parser :: "rstr \<Rightarrow> syntax_node" where
  "flat_parser t = Inner (Detached, 0) (map (\<lambda>c. Leaf (Detached, 0) [c]) t)"

text \<open>
  The invariant of the tree of a snapshot: the tree covers the text, and its nodes
  carry, in pre-order, the identity of the snapshot with the numbers from 0 on. A tree is
  uniform when all its nodes carry the span of its root. A parser covers its input when
  the tree it returns has the length of the text.
\<close>

definition tree_inv :: "syntax_node repr \<Rightarrow> bool" where
  "tree_inv s \<longleftrightarrow>
     node_len (repr_root s) = str_len (repr_text s)
     \<and> spans_of (repr_root s) = map (Pair (repr_id s)) [0..<node_count (repr_root s)]"

definition uniform :: "syntax_node \<Rightarrow> bool" where
  "uniform t \<longleftrightarrow> (\<forall>sp \<in> set (spans_of t). sp = node_span t)"

definition covers :: "(rstr \<Rightarrow> syntax_node) \<Rightarrow> bool" where
  "covers p \<longleftrightarrow> (\<forall>t. node_len (p t) = str_len t)"

section \<open>Nodes in pre-order\<close>

lemma linked_shift:
  "map (node_span \<circ> fst) (linked off t) = map (node_span \<circ> fst) (linked 0 t)"
  "map (node_span \<circ> fst) (linked_children off cs) = map (node_span \<circ> fst) (linked_children 0 cs)"
proof (induct t and cs arbitrary: off and off rule: linked.induct linked_children.induct)
  case (Cons_syntax_node c cs)
  from Cons_syntax_node(1) [of off] Cons_syntax_node(2) [of "off + node_len c"]
    Cons_syntax_node(2) [of "0 + node_len c"]
  show ?case by simp
qed simp_all

lemma length_linked_shift:
  "length (linked off t) = node_count t"
  using arg_cong [OF linked_shift(1) [of off t], of length] by (simp add: node_count_def)

lemma linked_hd: "linked off t \<noteq> [] \<and> hd (linked off t) = (t, off)"
  by (cases t) simp_all

lemma node_count_pos [simp]: "0 < node_count t"
  using linked_hd [of 0 t] by (simp add: node_count_def)

lemma linked_within:
  "l \<in> set (linked off t) \<Longrightarrow> off \<le> snd l \<and> snd l + node_len (fst l) \<le> off + node_len t"
  "l \<in> set (linked_children off cs) \<Longrightarrow>
     off \<le> snd l \<and> snd l + node_len (fst l) \<le> off + sum_list (map node_len cs)"
proof (induct t and cs arbitrary: off and off rule: linked.induct linked_children.induct)
  case (Cons_syntax_node c cs)
  from Cons_syntax_node(3) Cons_syntax_node(1) [of off] Cons_syntax_node(2) [of "off + node_len c"]
  show ?case by auto
qed auto

section \<open>The lookup is the search of the nodes in pre-order\<close>

lemma find_append:
  "List.find P (xs @ ys) = (case List.find P xs of Some x \<Rightarrow> Some x | None \<Rightarrow> List.find P ys)"
  by (induction xs) simp_all

lemma find_in_linked:
  "find_in off t sp = List.find (\<lambda>l. node_span (fst l) = sp) (linked off t)"
  "find_children off cs sp = List.find (\<lambda>l. node_span (fst l) = sp) (linked_children off cs)"
  by (induct t and cs arbitrary: off and off rule: linked.induct linked_children.induct)
    (simp_all add: find_append split: option.split)

lemma find_distinct_nth:
  "distinct (map f xs) \<Longrightarrow> i < length xs \<Longrightarrow> List.find (\<lambda>x. f x = f (xs ! i)) xs = Some (xs ! i)"
proof (induction xs arbitrary: i)
  case (Cons x xs)
  then show ?case by (cases i) (auto simp: image_iff)
qed simp

lemma find_in_SomeD:
  assumes "find_in off t sp = Some l"
  shows "l \<in> set (linked off t)" and "node_span (fst l) = sp"
  using assms by (auto simp: find_in_linked find_Some_iff)

section \<open>Numbering\<close>

lemma upt_join: "n \<le> k \<Longrightarrow> k \<le> m \<Longrightarrow> [n..<k] @ [k..<m] = [n..<m]"
  using upt_add_eq_append [of n k "m - k"] by simp

lemma numberize_linked:
  "map (node_span \<circ> fst) (linked off (fst (numberize_node fid t n)))
     = map (Pair fid) [n..<snd (numberize_node fid t n)]
   \<and> n < snd (numberize_node fid t n)"
  "map (node_span \<circ> fst) (linked_children off (fst (numberize_children fid cs n)))
     = map (Pair fid) [n..<snd (numberize_children fid cs n)]
   \<and> n \<le> snd (numberize_children fid cs n)"
proof (induct t and cs arbitrary: n off and n off rule: linked.induct linked_children.induct)
  case (Inner sp cs)
  from Inner [of off "Suc n"] show ?case
    by (simp add: split_beta upt_conv_Cons)
next
  case (Cons_syntax_node c cs)
  let ?k = "snd (numberize_node fid c n)"
  let ?m = "snd (numberize_children fid cs ?k)"
  note 1 = Cons_syntax_node(1) [of off n]
    and 2 = Cons_syntax_node(2) [of "off + node_len (fst (numberize_node fid c n))" ?k]
  from 1 2 have "[n..<?m] = [n..<?k] @ [?k..<?m]" by (simp add: upt_join)
  with 1 2 show ?case by (simp add: split_beta)
qed (simp_all add: upt_conv_Cons)

lemma numberize_len:
  "node_len (fst (numberize_node fid t n)) = node_len t"
  "map node_len (fst (numberize_children fid cs n)) = map node_len cs"
  by (induct t and cs arbitrary: n and n rule: linked.induct linked_children.induct)
    (simp_all add: split_beta)

lemma numberize_span [simp]: "node_span (fst (numberize_node fid t n)) = (fid, n)"
  by (cases t) (simp_all add: split_beta)

lemma numberize_count:
  "snd (numberize_node fid t n) = n + node_count (fst (numberize_node fid t n))"
  using arg_cong [OF conjunct1 [OF numberize_linked(1) [of 0 fid t n]], of length]
    conjunct2 [OF numberize_linked(1) [of 0 fid t n]]
  by (simp add: node_count_def)

lemma spans_numberize:
  "spans_of (fst (numberize_node fid t 0))
     = map (Pair fid) [0..<node_count (fst (numberize_node fid t 0))]"
  using numberize_linked(1) [of 0 fid t 0] numberize_count [of fid t 0]
  by (simp add: spans_of_def)

lemma synthesize_linked:
  "\<forall>l \<in> set (linked off (synthesize_node sp t)). node_span (fst l) = sp"
  "\<forall>l \<in> set (linked_children off (map (synthesize_node sp) cs)). node_span (fst l) = sp"
  by (induct t and cs arbitrary: off and off rule: linked.induct linked_children.induct) auto

lemma synthesize_len: "node_len (synthesize_node sp t) = node_len t"
  by (induction t) (auto intro!: arg_cong [where f = sum_list])

lemma synthesize_span [simp]: "node_span (synthesize_node sp t) = sp"
  by (cases t) simp_all

lemma uniform_synthesize: "uniform (synthesize_node sp t)"
  using synthesize_linked(1) [of 0 sp t] by (simp add: uniform_def spans_of_def)

lemma node_len_flat_parser [simp]: "node_len (flat_parser t) = str_len t"
  by (induction t) (simp_all add: flat_parser_def str_len_def)

lemma covers_flat_parser [simp]: "covers flat_parser"
  by (simp add: covers_def)

section \<open>Snapshots over trees\<close>

lemma tree_ops_simps [simp]:
  "parse (tree_ops p) = p"
  "numberize (tree_ops p) node fid = Some (fst (numberize_node fid node 0))"
  "synthesize (tree_ops p) node sp = synthesize_node sp node"
  "find_node (tree_ops p) node sp = find_in 0 node sp"
  "reparse (tree_ops p) node t r len
     = (fst (numberize_node (fst (node_span node)) (p t) 0), (0, str_len t))"
  by (simp_all add: tree_ops_def)

lemma numbering_total_tree_ops [simp]: "numbering_total (tree_ops p)"
  by (simp add: numbering_total_def)

lemma new_tree_ops:
  "new (tree_ops p) fid t =
     Inr \<lparr>repr_id = fid, repr_text = t, repr_root = fst (numberize_node fid (p t) 0),
          repr_lines = lines t\<rparr>"
  by (simp add: new_eq)

text \<open>What \<^verbatim>\<open>edit\<close> stores as the tree and returns, for every interface.\<close>

lemma edit_root:
  assumes "edit ops s r w = Inr (s', rg)"
  shows "(repr_root s', rg) = reparse ops (repr_root s) (repr_text s') r (str_len w)"
    and "repr_id s' = repr_id s"
proof -
  obtain a e where r: "r = (a, e)" by (cases r)
  from edit_InrD [OF assms [unfolded r]] obtain p m q
    where t: "repr_text s = p @ m @ q" and a: "a = str_len p" and e: "e = str_len p + str_len m"
    by (elim conjE range_split)
  from assms show "(repr_root s', rg) = reparse ops (repr_root s) (repr_text s') r (str_len w)"
    and "repr_id s' = repr_id s"
    unfolding r a e edit_unfold [OF t]
    by (auto simp: rbind_eq_Inr_iff Let_def split: option.splits)
qed

lemma tree_inv_root_id:
  assumes "tree_inv s"
  shows "fst (node_span (repr_root s)) = repr_id s"
proof -
  from linked_hd [of 0 "repr_root s"] have "hd (spans_of (repr_root s)) = node_span (repr_root s)"
    by (simp add: spans_of_def hd_map)
  with assms have "node_span (repr_root s) = (repr_id s, 0)"
    by (simp add: tree_inv_def hd_map upt_conv_Cons)
  then show ?thesis by simp
qed

lemma tree_inv_numberize:
  assumes "covers p"
  shows "tree_inv (s\<lparr>repr_id := fid, repr_text := t, repr_root := fst (numberize_node fid (p t) 0)\<rparr>)"
  using assms by (simp add: tree_inv_def spans_numberize numberize_len covers_def)

lemma new_tree_inv: "covers p \<Longrightarrow> new (tree_ops p) fid t = Inr s \<Longrightarrow> tree_inv s \<and> repr_id s = fid"
  using tree_inv_numberize [where p = p and fid = fid and t = t]
  by (auto simp: new_tree_ops tree_inv_def)

lemma apply_op_tree_inv:
  assumes "covers p" and "tree_inv s" and "apply_op (tree_ops p) s op = Inr s'"
  shows "tree_inv s' \<and> repr_id s' = repr_id s"
proof (cases op)
  case (Replace t)
  with assms(3) tree_inv_numberize [OF assms(1), where s = s and fid = "repr_id s" and t = t]
  show ?thesis
    by (auto simp: apply_op_def replace_eq tree_inv_def)
next
  case (Edit r w)
  with assms(3) obtain rg where e: "edit (tree_ops p) s r w = Inr (s', rg)"
    by (auto simp: apply_op_def rbind_eq_Inr_iff)
  from edit_root [OF e] tree_inv_root_id [OF assms(2)]
  have "repr_root s' = fst (numberize_node (repr_id s') (p (repr_text s')) 0)"
    and "repr_id s' = repr_id s"
    by simp_all
  with assms(1) show ?thesis
    by (simp add: tree_inv_def spans_numberize numberize_len covers_def)
qed

lemma run_tree_inv:
  "covers p \<Longrightarrow> tree_inv s \<Longrightarrow> run (tree_ops p) s os = Inr s' \<Longrightarrow>
   tree_inv s' \<and> repr_id s' = repr_id s"
proof (induction os arbitrary: s)
  case (Cons op os)
  from Cons.prems(3) obtain s1 where 1: "apply_op (tree_ops p) s op = Inr s1"
    and 2: "run (tree_ops p) s1 os = Inr s'"
    by (auto simp: rbind_eq_Inr_iff)
  from apply_op_tree_inv [OF Cons.prems(1,2) 1] Cons.IH [OF Cons.prems(1) _ 2] show ?case
    by simp
qed simp

text \<open>The lookup in a tree whose spans are the numbers from 0 on under one identity.\<close>

lemma find_in_numbered:
  assumes "map (node_span \<circ> fst) (linked off t) = map (Pair fid) [0..<length (linked off t)]"
  shows "find_in off t (fid', k) =
     (if fid' = fid \<and> k < length (linked off t) then Some (linked off t ! k) else None)"
proof (cases "fid' = fid \<and> k < length (linked off t)")
  case True
  let ?f = "node_span \<circ> fst"
  from assms have "distinct (map ?f (linked off t))"
    by (simp add: distinct_map inj_on_def)
  moreover from True have "?f (linked off t ! k) = (fid', k)"
    using arg_cong [OF assms, of "\<lambda>xs. xs ! k"] by simp
  ultimately show ?thesis
    using True find_distinct_nth [of ?f "linked off t" k] by (simp add: find_in_linked)
next
  case False
  have "(fid', k) \<notin> set (map (node_span \<circ> fst) (linked off t))"
    using False unfolding assms by auto
  then have "List.find (\<lambda>l. node_span (fst l) = (fid', k)) (linked off t) = None"
    by (force simp: find_None_iff image_iff)
  with False show ?thesis by (simp add: find_in_linked)
qed

section \<open>Examples\<close>

text \<open>The snapshot that \<^verbatim>\<open>new\<close> builds with the flat parser.\<close>

definition tree_snapshot :: "file_id \<Rightarrow> rstr \<Rightarrow> syntax_node repr" where
  "tree_snapshot fid t =
     \<lparr>repr_id = fid, repr_text = t, repr_root = fst (numberize_node fid (flat_parser t) 0),
      repr_lines = lines t\<rparr>"

lemma new_flat: "new (tree_ops flat_parser) fid t = Inr (tree_snapshot fid t)"
  by (simp add: new_tree_ops tree_snapshot_def)

lemma source_inv_tree_snapshot [simp]: "source_inv (tree_snapshot fid t)"
  by (simp add: source_inv_def tree_snapshot_def)

lemma tree_inv_tree_snapshot [simp]: "tree_inv (tree_snapshot fid t)"
  using new_tree_inv [OF covers_flat_parser new_flat] by simp

lemma edit_flat:
  "apply_op (tree_ops flat_parser) (tree_snapshot (File 1) [97, 98]) (Edit (1, 1) [120])
     = Inr (tree_snapshot (File 1) [97, 120, 98])"
proof -
  have t: "repr_text (tree_snapshot (File 1) [97, 98]) = [97] @ [] @ [98]"
    by (simp add: tree_snapshot_def)
  show ?thesis
    using edit_split [OF source_inv_tree_snapshot t, of "tree_ops flat_parser" "[120]"]
    by (simp add: apply_op_def Let_def tree_snapshot_def flat_parser_def eval_edit)
qed

lemmas eval_tree = tree_snapshot_def flat_parser_def spans_of_def node_count_def root_def

section \<open>Properties of snapshots over trees\<close>

text \<open>
  C21. The tree of a snapshot stays numbered. With a parser that covers its input, the
  snapshot that \<^verbatim>\<open>new\<close> returns and every snapshot that a run of \<^verbatim>\<open>replace\<close> and \<^verbatim>\<open>edit\<close>
  makes of it keep the identity given to \<^verbatim>\<open>new\<close>, store a tree as long as the text, and
  the spans of the tree are, in pre-order, that identity with the numbers from 0 to the
  number of nodes: every node is numbered, nested ones included, and the numbers
  increase strictly. Numbering and reparser are those of \<open>tree_ops\<close>: numbers from 0
  without gaps, and after an edit the whole text parsed and numbered again, which is
  the case of the contract in which the reparser asks for a full parse.
\<close>

theorem tree_numbered_throughout:
  assumes "covers p" and "new (tree_ops p) fid t = Inr s" and "run (tree_ops p) s os = Inr s'"
  shows "repr_id s' = fid \<and> node_len (root s') = len_bytes s'
    \<and> spans_of (root s') = map (Pair fid) [0..<node_count (root s')]"
  using run_tree_inv [OF assms(1) _ assms(3)] new_tree_inv [OF assms(1,2)]
  by (simp add: tree_inv_def root_def len_bytes_def source_text_def)

theorem tree_numbered_throughout_witness:
  "covers flat_parser
   \<and> new (tree_ops flat_parser) (File 1) [97, 98] = Inr (tree_snapshot (File 1) [97, 98])
   \<and> run (tree_ops flat_parser) (tree_snapshot (File 1) [97, 98]) [Edit (1, 1) [120]]
       = Inr (tree_snapshot (File 1) [97, 120, 98])
   \<and> node_len (root (tree_snapshot (File 1) [97, 120, 98])) = 3
   \<and> spans_of (root (tree_snapshot (File 1) [97, 120, 98]))
       = [(File 1, 0), (File 1, 1), (File 1, 2), (File 1, 3)]"
proof -
  have 1: "run (tree_ops flat_parser) (tree_snapshot (File 1) [97, 98]) [Edit (1, 1) [120]]
      = Inr (tree_snapshot (File 1) [97, 120, 98])"
    by (simp only: run.simps edit_flat rbind_simps)
  have 2: "node_count (root (tree_snapshot (File 1) [97, 120, 98])) = 4"
    by (simp add: eval_tree)
  from tree_numbered_throughout [OF covers_flat_parser new_flat 1] 1 2 show ?thesis
    by (simp add: new_flat len_bytes_def source_text_def tree_snapshot_def str_len_def
        char_len_utf8_def upt_conv_Cons)
qed

text \<open>
  C22. Numbering and lookup are a round trip. On a snapshot whose tree is numbered,
  \<^verbatim>\<open>find\<close> of the span with the identity of the snapshot and the number \<open>k\<close> returns the
  \<open>k\<close>-th node of the tree in pre-order with the byte offset at which it starts, for
  every \<open>k\<close> below the number of nodes; it returns nothing for a number beyond and for
  a span of another identity. The node that is found carries the span, and its range
  lies inside the text.
\<close>

theorem find_by_span:
  assumes "tree_inv s"
  shows "source_find (tree_ops p) s (fid, k)
      = (if fid = repr_id s \<and> k < node_count (root s) then Some (linked 0 (root s) ! k) else None)
    \<and> (\<forall>l. source_find (tree_ops p) s (fid, k) = Some l \<longrightarrow>
          node_span (fst l) = (fid, k) \<and> snd l + node_len (fst l) \<le> len_bytes s)"
proof -
  from assms have "map (node_span \<circ> fst) (linked 0 (repr_root s))
      = map (Pair (repr_id s)) [0..<length (linked 0 (repr_root s))]"
    by (simp add: tree_inv_def spans_of_def node_count_def)
  from find_in_numbered [OF this] have "source_find (tree_ops p) s (fid, k)
      = (if fid = repr_id s \<and> k < node_count (root s) then Some (linked 0 (root s) ! k) else None)"
    by (simp add: source_find_def root_def node_count_def)
  moreover have "node_span (fst l) = (fid, k) \<and> snd l + node_len (fst l) \<le> len_bytes s"
    if "source_find (tree_ops p) s (fid, k) = Some l" for l
    using that find_in_SomeD [of 0 "repr_root s" "(fid, k)" l] linked_within(1) [of l 0 "repr_root s"]
      assms
    by (simp add: source_find_def root_def tree_inv_def len_bytes_def source_text_def)
  ultimately show ?thesis by blast
qed

theorem find_by_span_witness:
  "tree_inv (tree_snapshot (File 1) [97, 98])
   \<and> source_find (tree_ops flat_parser) (tree_snapshot (File 1) [97, 98]) (File 1, 2)
       = Some (Leaf (File 1, 2) [98], 1)
   \<and> source_find (tree_ops flat_parser) (tree_snapshot (File 1) [97, 98]) (File 1, 3) = None
   \<and> source_find (tree_ops flat_parser) (tree_snapshot (File 1) [97, 98]) (File 2, 0) = None"
proof -
  let ?s = "tree_snapshot (File 1) [97, 98]"
  have 1: "tree_inv ?s" by simp
  have 2: "repr_id ?s = File 1" "node_count (root ?s) = 3"
    "linked 0 (root ?s) ! 2 = (Leaf (File 1, 2) [98], 1)"
    by (simp_all add: eval_tree str_len_def char_len_utf8_def)
  from find_by_span [OF 1, of flat_parser "File 1" 2] find_by_span [OF 1, of flat_parser "File 1" 3]
    find_by_span [OF 1, of flat_parser "File 2" 0] 1 2
  show ?thesis by simp
qed

text \<open>
  C23. A synthesized snapshot stores a tree whose nodes all carry the given span, so
  that \<^verbatim>\<open>find\<close> of this span returns the root at offset 0 and \<^verbatim>\<open>find\<close> of any other
  span returns nothing.
\<close>

theorem synthesized_uniform:
  "uniform (root (synthesized (tree_ops p) t sp))
   \<and> source_find (tree_ops p) (synthesized (tree_ops p) t sp) sp'
       = (if sp' = sp then Some (root (synthesized (tree_ops p) t sp), 0) else None)"
proof -
  let ?t = "synthesize_node sp (p t)"
  have "find_in 0 ?t sp = Some (?t, 0)"
    using synthesize_span [of sp "p t"] by (cases ?t) auto
  moreover have "find_in 0 ?t sp' = None" if "sp' \<noteq> sp"
    using that synthesize_linked(1) [of 0 sp "p t"] by (auto simp: find_in_linked find_None_iff)
  ultimately show ?thesis
    by (simp add: synthesized_def source_find_def root_def uniform_synthesize)
qed

theorem synthesized_uniform_witness:
  "spans_of (root (synthesized (tree_ops flat_parser) [97, 98] (File 3, 7)))
     = [(File 3, 7), (File 3, 7), (File 3, 7)]
   \<and> source_find (tree_ops flat_parser) (synthesized (tree_ops flat_parser) [97, 98] (File 3, 7)) (File 3, 7)
       = Some (Inner (File 3, 7) [Leaf (File 3, 7) [97], Leaf (File 3, 7) [98]], 0)
   \<and> source_find (tree_ops flat_parser) (synthesized (tree_ops flat_parser) [97, 98] (File 3, 7)) (File 3, 8)
       = None"
  using synthesized_uniform [of flat_parser "[97, 98]" "(File 3, 7)" "(File 3, 7)"]
    synthesized_uniform [of flat_parser "[97, 98]" "(File 3, 7)" "(File 3, 8)"]
  by (simp add: synthesized_def eval_tree str_len_def char_len_utf8_def)

end
