(* ===== verification/Math_Module.thy ===== *)
theory Math_Module
  imports Source_Prelude
begin

text \<open>
  The function \<^verbatim>\<open>module\<close> of \<^verbatim>\<open>src/crates/typst-library/src/math/mod.rs\<close>, which builds
  the scope of the math module. The scope is deduplicating: in a build with debug
  assertions \<^verbatim>\<open>Scope::define\<close> panics when a name is defined twice, and that panic is
  modelled. The operators, the spacings and the symbols are defined by other modules;
  they are the parameters of \<open>module\<close>. The theorems say when the function returns and
  what the scope then holds.
\<close>

section \<open>Scopes\<close>

text \<open>\<^verbatim>\<open>Scope\<close>: the bindings, and whether a second definition of a name is a panic.\<close>

record 'v scope =
  scope_map :: "string \<rightharpoonup> 'v"
  deduplicating :: bool

definition scope_deduplicating :: "'v scope" where
  "scope_deduplicating = \<lparr>scope_map = Map.empty, deduplicating = True\<rparr>"

definition scope_define :: "'v scope \<Rightarrow> string \<Rightarrow> 'v \<Rightarrow> 'v scope result" where
  "scope_define sc name v =
     (if deduplicating sc \<and> scope_map sc name \<noteq> None then Inl Duplicate_Definition
      else Inr (sc\<lparr>scope_map := (scope_map sc)(name \<mapsto> v)\<rparr>))"

text \<open>A sequence of definitions, as a function that receives the scope makes them.\<close>

fun define_all :: "'v scope \<Rightarrow> (string \<times> 'v) list \<Rightarrow> 'v scope result" where
  "define_all sc [] = Inr sc"
| "define_all sc ((name, v) # bs) = rbind (scope_define sc name v) (\<lambda>sc. define_all sc bs)"

section \<open>The math module\<close>

text \<open>
  What a name of the module is bound to: the function of an element, a native function,
  or a symbol.
\<close>

datatype 's math_value = Elem string | Func string | Symbol 's

text \<open>The definitions that \<^verbatim>\<open>module\<close> makes itself, in its order.\<close>

definition math_definitions :: "(string \<times> 's math_value) list" where
  "math_definitions =
     [(''equation'', Elem ''EquationElem''),
      (''text'', Elem ''TextElem''),
      (''lr'', Elem ''LrElem''),
      (''abs'', Func ''abs_func''),
      (''norm'', Func ''norm_func''),
      (''floor'', Func ''floor_func''),
      (''ceil'', Func ''ceil_func''),
      (''round'', Func ''round_func''),
      (''attach'', Elem ''AttachElem''),
      (''scripts'', Elem ''ScriptsElem''),
      (''limits'', Elem ''LimitsElem''),
      (''accent'', Elem ''AccentElem''),
      (''underline'', Elem ''UnderlineElem''),
      (''overline'', Elem ''OverlineElem''),
      (''underbrace'', Elem ''UnderbraceElem''),
      (''overbrace'', Elem ''OverbraceElem''),
      (''underbracket'', Elem ''UnderbracketElem''),
      (''overbracket'', Elem ''OverbracketElem''),
      (''cancel'', Elem ''CancelElem''),
      (''frac'', Elem ''FracElem''),
      (''binom'', Elem ''BinomElem''),
      (''vec'', Elem ''VecElem''),
      (''mat'', Elem ''MatElem''),
      (''cases'', Elem ''CasesElem''),
      (''sqrt'', Func ''sqrt_func''),
      (''root'', Elem ''RootElem''),
      (''upright'', Func ''upright_func''),
      (''bold'', Func ''bold_func''),
      (''italic'', Func ''italic_func''),
      (''serif'', Func ''serif_func''),
      (''sans'', Func ''sans_func''),
      (''cal'', Func ''cal_func''),
      (''frak'', Func ''frak_func''),
      (''mono'', Func ''mono_func''),
      (''bb'', Func ''bb_func''),
      (''display'', Func ''display_func''),
      (''inline'', Func ''inline_func''),
      (''script'', Func ''script_func''),
      (''sscript'', Func ''sscript_func''),
      (''class'', Elem ''ClassElem''),
      (''op'', Elem ''OpElem'')]"

record 'v Module =
  mod_name :: string
  mod_scope :: "'v scope"

text \<open>
  \<^verbatim>\<open>module\<close>: its own definitions, those of \<^verbatim>\<open>op::define\<close> and \<^verbatim>\<open>spacing::define\<close>, and
  one definition for every symbol of \<^verbatim>\<open>SYM\<close>.
\<close>

definition module ::
  "(string \<times> 's math_value) list \<Rightarrow> (string \<times> 's math_value) list \<Rightarrow> (string \<times> 's) list
     \<Rightarrow> 's math_value Module result" where
  "module op_defs spacing_defs symbols =
     rbind (define_all scope_deduplicating math_definitions) (\<lambda>math.
     rbind (define_all math op_defs) (\<lambda>math.
     rbind (define_all math spacing_defs) (\<lambda>math.
     rbind (define_all math (map (\<lambda>(name, symbol). (name, Symbol symbol)) symbols)) (\<lambda>math.
     Inr \<lparr>mod_name = ''math'', mod_scope = math\<rparr>))))"

section \<open>What a sequence of definitions does\<close>

lemma scope_define_eq_Inr_iff:
  "deduplicating sc \<Longrightarrow>
   scope_define sc name v = Inr sc' \<longleftrightarrow> scope_map sc name = None \<and> sc' = sc\<lparr>scope_map := (scope_map sc)(name \<mapsto> v)\<rparr>"
  by (auto simp: scope_define_def)

lemma map_add_upd_fresh:
  "k \<notin> fst ` set bs \<Longrightarrow> f(k \<mapsto> v) ++ map_of bs = (f ++ map_of bs)(k \<mapsto> v)"
proof -
  assume "k \<notin> fst ` set bs"
  then have "map_of bs k = None" by (simp add: map_of_eq_None_iff)
  then show ?thesis by (auto simp: map_add_def fun_eq_iff split: option.splits)
qed

lemma define_all_eq_Inr_iff:
  "deduplicating sc \<Longrightarrow>
   define_all sc bs = Inr sc' \<longleftrightarrow>
     distinct (map fst bs) \<and> fst ` set bs \<inter> dom (scope_map sc) = {}
     \<and> sc' = sc\<lparr>scope_map := scope_map sc ++ map_of bs\<rparr>"
proof (induction bs arbitrary: sc)
  case Nil
  then show ?case by auto
next
  case (Cons b bs)
  obtain name v where b: "b = (name, v)" by (cases b)
  let ?sc1 = "sc\<lparr>scope_map := (scope_map sc)(name \<mapsto> v)\<rparr>"
  have d: "deduplicating ?sc1" using Cons.prems by simp
  have "define_all sc (b # bs) = Inr sc' \<longleftrightarrow>
          scope_map sc name = None \<and> define_all ?sc1 bs = Inr sc'"
    unfolding b using Cons.prems by (auto simp: rbind_eq_Inr_iff scope_define_eq_Inr_iff)
  also have "\<dots> \<longleftrightarrow> scope_map sc name = None \<and> distinct (map fst bs)
          \<and> fst ` set bs \<inter> dom (scope_map ?sc1) = {}
          \<and> sc' = ?sc1\<lparr>scope_map := scope_map ?sc1 ++ map_of bs\<rparr>"
    unfolding Cons.IH [OF d] ..
  also have "\<dots> \<longleftrightarrow> distinct (map fst (b # bs)) \<and> fst ` set (b # bs) \<inter> dom (scope_map sc) = {}
          \<and> sc' = sc\<lparr>scope_map := scope_map sc ++ map_of (b # bs)\<rparr>"
  proof (cases "name \<in> fst ` set bs")
    case True
    then show ?thesis unfolding b by auto
  next
    case False
    then show ?thesis unfolding b by (auto simp: map_add_upd_fresh domIff)
  qed
  finally show ?case .
qed

lemma define_all_panic:
  "define_all sc bs = Inl p \<Longrightarrow> p = Duplicate_Definition"
proof (induction bs arbitrary: sc)
  case Nil
  then show ?case by simp
next
  case (Cons b bs)
  then show ?case
    by (cases b) (auto simp: rbind_def scope_define_def split: sum.splits if_splits)
qed

lemma define_all_append:
  "define_all sc (bs @ cs) = rbind (define_all sc bs) (\<lambda>sc. define_all sc cs)"
  by (induction bs arbitrary: sc) (auto simp: rbind_def split: sum.splits)

text \<open>
  The names that \<^verbatim>\<open>module\<close> defines itself, whatever the type of the symbols is; they
  are different from one another.
\<close>

definition own_names :: "string list" where
  "own_names = map fst (math_definitions :: (string \<times> unit math_value) list)"

lemma map_fst_math_definitions [simp]: "map fst math_definitions = own_names"
  by (simp add: math_definitions_def own_names_def)

lemma distinct_own_names: "distinct own_names"
  by (simp add: own_names_def math_definitions_def)

section \<open>The module\<close>

text \<open>Everything that \<^verbatim>\<open>module\<close> defines, in the order of the definitions.\<close>

definition module_definitions ::
  "(string \<times> 's math_value) list \<Rightarrow> (string \<times> 's math_value) list \<Rightarrow> (string \<times> 's) list
     \<Rightarrow> (string \<times> 's math_value) list" where
  "module_definitions op_defs spacing_defs symbols =
     math_definitions @ op_defs @ spacing_defs @ map (\<lambda>(name, symbol). (name, Symbol symbol)) symbols"

lemma module_eq:
  "module op_defs spacing_defs symbols =
     rbind (define_all scope_deduplicating (module_definitions op_defs spacing_defs symbols))
       (\<lambda>math. Inr \<lparr>mod_name = ''math'', mod_scope = math\<rparr>)"
  by (simp add: module_def module_definitions_def define_all_append rbind_def split: sum.splits)

lemma map_fst_module_definitions:
  "map fst (module_definitions op_defs spacing_defs symbols) =
     own_names @ map fst op_defs @ map fst spacing_defs @ map fst symbols"
proof -
  have "map (fst \<circ> (\<lambda>(name, symbol). (name, Symbol symbol))) symbols = map fst symbols"
    by (induction symbols) auto
  then show ?thesis by (simp add: module_definitions_def)
qed

lemma module_eq_Inr_iff:
  "module op_defs spacing_defs symbols = Inr m \<longleftrightarrow>
     distinct (map fst (module_definitions op_defs spacing_defs symbols))
     \<and> m = \<lparr>mod_name = ''math'',
            mod_scope = \<lparr>scope_map = map_of (module_definitions op_defs spacing_defs symbols),
                          deduplicating = True\<rparr>\<rparr>"
  by (auto simp: module_eq rbind_eq_Inr_iff define_all_eq_Inr_iff scope_deduplicating_def)

text \<open>
  C36. \<^verbatim>\<open>module\<close> returns exactly when the names that the operators, the spacings and
  the symbols define are different from one another and from the forty-one names that
  the function defines itself (which are different from one another). The module is
  then called \<^verbatim>\<open>math\<close> and its scope binds every defined name to the value it was
  defined with, and nothing else.
\<close>

theorem module_returns_iff:
  "module op_defs spacing_defs symbols = Inr m \<longleftrightarrow>
     distinct (map fst op_defs @ map fst spacing_defs @ map fst symbols)
     \<and> set own_names \<inter> set (map fst op_defs @ map fst spacing_defs @ map fst symbols) = {}
     \<and> m = \<lparr>mod_name = ''math'',
            mod_scope = \<lparr>scope_map = map_of (module_definitions op_defs spacing_defs symbols),
                          deduplicating = True\<rparr>\<rparr>"
proof -
  let ?others = "map fst op_defs @ map fst spacing_defs @ map fst symbols"
  have d: "distinct (own_names @ ?others) \<longleftrightarrow> distinct ?others \<and> set own_names \<inter> set ?others = {}"
    unfolding distinct_append [of own_names ?others] using distinct_own_names by blast
  show ?thesis
    unfolding module_eq_Inr_iff map_fst_module_definitions d by (rule conj_assoc)
qed

text \<open>Otherwise it panics, and the panic is that of a duplicate definition.\<close>

lemma module_panics_iff:
  "module op_defs spacing_defs symbols = Inl p \<longleftrightarrow>
     p = Duplicate_Definition
     \<and> \<not> distinct (map fst (module_definitions op_defs spacing_defs symbols))"
proof (cases "module op_defs spacing_defs symbols")
  case (Inl q)
  then have "q = Duplicate_Definition"
    by (auto simp: module_eq rbind_def split: sum.splits dest: define_all_panic)
  with Inl module_eq_Inr_iff [of op_defs spacing_defs symbols] show ?thesis by auto
next
  case (Inr m)
  with module_eq_Inr_iff [of op_defs spacing_defs symbols m] show ?thesis by simp
qed

text \<open>Alone, the definitions of \<^verbatim>\<open>module\<close> do not panic, and \<open>sqrt\<close> is a function.\<close>

lemma module_own_definitions:
  "\<exists>m. module [] [] ([] :: (string \<times> unit) list) = Inr m
     \<and> scope_map (mod_scope m) ''sqrt'' = Some (Func ''sqrt_func'')
     \<and> dom (scope_map (mod_scope m)) = set own_names"
  by (simp add: module_eq_Inr_iff map_fst_module_definitions distinct_own_names
      dom_map_of_conv_image_fst flip: set_map)
    (simp add: module_definitions_def math_definitions_def)

end
