(* ===== verification/Equation.thy ===== *)
theory Equation
  imports Rust_Str
begin

text \<open>
  The equation element of \<^verbatim>\<open>src/crates/typst-library/src/math/mod.rs\<close>: the struct
  \<^verbatim>\<open>EquationElem\<close> and its implementations of \<^verbatim>\<open>Synthesize\<close>, \<^verbatim>\<open>Show\<close>, \<^verbatim>\<open>Finalize\<close>,
  \<^verbatim>\<open>Count\<close>, \<^verbatim>\<open>LocalName\<close>, \<^verbatim>\<open>Refable\<close> and \<^verbatim>\<open>Outlinable\<close>. Content, numberings,
  supplement functions and counters belong to other modules; the model takes content as
  a type variable with the operations the file calls on it (\<open>meta_ops\<close>). A field of the
  element is either set on the element or read from the style chain, as the accessors
  that the \<^verbatim>\<open>#[element]\<close> macro generates do. The theorems say what synthesis fixes and
  what the other traits read afterwards.
\<close>

section \<open>Languages and local names\<close>

text \<open>The languages that \<^verbatim>\<open>local_name\<close> names, and any other language code.\<close>

datatype lang =
    ALBANIAN | ARABIC | BOKMAL | CHINESE | CZECH | DANISH | DUTCH | FILIPINO | FRENCH
  | GERMAN | ITALIAN | NYNORSK | POLISH | PORTUGUESE | RUSSIAN | SLOVENIAN | SPANISH
  | SWEDISH | TURKISH | UKRAINIAN | VIETNAMESE | JAPANESE | ENGLISH | Other_Lang rstr

type_synonym region = rstr

text \<open>\<^verbatim>\<open>option_eq(region, "TW")\<close>.\<close>

definition option_eq :: "region option \<Rightarrow> rstr \<Rightarrow> bool" where
  "option_eq r s \<longleftrightarrow> r = Some s"

text \<open>\<^verbatim>\<open>LocalName::local_name\<close>; the names are lists of code points.\<close>

definition local_name :: "lang \<Rightarrow> region option \<Rightarrow> rstr" where
  "local_name l r =
     (case l of
        ALBANIAN \<Rightarrow> [69, 107, 117, 97, 99, 105, 111, 110]
      | ARABIC \<Rightarrow> [0x645, 0x639, 0x627, 0x62F, 0x644, 0x629]
      | BOKMAL \<Rightarrow> [76, 105, 103, 110, 105, 110, 103]
      | CHINESE \<Rightarrow> (if option_eq r [84, 87] then [0x65B9, 0x7A0B, 0x5F0F] else [0x7B49, 0x5F0F])
      | CZECH \<Rightarrow> [82, 111, 118, 110, 105, 99, 101]
      | DANISH \<Rightarrow> [76, 105, 103, 110, 105, 110, 103]
      | DUTCH \<Rightarrow> [86, 101, 114, 103, 101, 108, 105, 106, 107, 105, 110, 103]
      | FILIPINO \<Rightarrow> [69, 107, 119, 97, 115, 121, 111, 110]
      | FRENCH \<Rightarrow> [0xC9, 113, 117, 97, 116, 105, 111, 110]
      | GERMAN \<Rightarrow> [71, 108, 101, 105, 99, 104, 117, 110, 103]
      | ITALIAN \<Rightarrow> [69, 113, 117, 97, 122, 105, 111, 110, 101]
      | NYNORSK \<Rightarrow> [76, 105, 107, 110, 105, 110, 103]
      | POLISH \<Rightarrow> [82, 0xF3, 119, 110, 97, 110, 105, 101]
      | PORTUGUESE \<Rightarrow> [69, 113, 117, 97, 0xE7, 0xE3, 111]
      | RUSSIAN \<Rightarrow> [0x423, 0x440, 0x430, 0x432, 0x43D, 0x435, 0x43D, 0x438, 0x435]
      | SLOVENIAN \<Rightarrow> [69, 110, 97, 0x10D, 98, 97]
      | SPANISH \<Rightarrow> [69, 99, 117, 97, 99, 105, 0xF3, 110]
      | SWEDISH \<Rightarrow> [69, 107, 118, 97, 116, 105, 111, 110]
      | TURKISH \<Rightarrow> [68, 101, 110, 107, 108, 101, 109]
      | UKRAINIAN \<Rightarrow> [0x420, 0x456, 0x432, 0x43D, 0x44F, 0x43D, 0x43D, 0x44F]
      | VIETNAMESE \<Rightarrow> [80, 104, 0x1B0, 0x1A1, 110, 103, 32, 116, 114, 0xEC, 110, 104]
      | JAPANESE \<Rightarrow> [0x5F0F]
      | ENGLISH \<Rightarrow> [69, 113, 117, 97, 116, 105, 111, 110]
      | Other_Lang c \<Rightarrow> [69, 113, 117, 97, 116, 105, 111, 110])"

section \<open>The element\<close>

text \<open>\<^verbatim>\<open>Smart<T>\<close>, \<^verbatim>\<open>Supplement\<close>, \<^verbatim>\<open>CounterUpdate\<close> and the key of a counter.\<close>

datatype 'a smart = Auto | Custom 'a

datatype ('c, 'f) Supplement = Supplement_Content 'c | Supplement_Func 'f

datatype counter_update = Step nat

datatype counter = Counter_Of string

text \<open>
  \<^verbatim>\<open>struct EquationElem\<close>: a field that is \<open>None\<close> has not been set on the element.
  \<open>body\<close> is required; \<open>location\<close> is the location that the introspector gives a
  locatable element.
\<close>

record ('c, 'n, 'f) equation_elem =
  block_field :: "bool option"
  numbering_field :: "'n option option"
  supplement_field :: "('c, 'f) Supplement option smart option"
  body :: 'c
  location :: "nat option"

text \<open>
  What a style chain says of the properties that the traits below read: the three
  settable fields of equations, and the language and the region of the text. The
  functions take any extension of the record, so that the layout can add the properties
  that it reads.
\<close>

record ('c, 'n, 'f) style_chain =
  block_style :: "bool option"
  numbering_style :: "'n option option"
  supplement_style :: "('c, 'f) Supplement option smart option"
  text_lang :: lang
  text_region :: "region option"

text \<open>\<^verbatim>\<open>StyleChain::default()\<close>: nothing is set, and the text is English.\<close>

definition default_styles :: "('c, 'n, 'f) style_chain" where
  "default_styles =
     \<lparr>block_style = None, numbering_style = None, supplement_style = None,
      text_lang = ENGLISH, text_region = None\<rparr>"

text \<open>
  The accessors of the fields: the value set on the element, else the value of the
  style chain, else the default of the field (\<^verbatim>\<open>false\<close>, \<^verbatim>\<open>None\<close>, \<^verbatim>\<open>Smart::Auto\<close>).
\<close>

definition resolve_field :: "'a option \<Rightarrow> 'a option \<Rightarrow> 'a \<Rightarrow> 'a" where
  "resolve_field field style dflt =
     (case field of Some v \<Rightarrow> v | None \<Rightarrow> (case style of Some v \<Rightarrow> v | None \<Rightarrow> dflt))"

definition block :: "('c, 'n, 'f) equation_elem \<Rightarrow> ('c, 'n, 'f, 'z) style_chain_scheme \<Rightarrow> bool" where
  "block e styles = resolve_field (block_field e) (block_style styles) False"

definition numbering :: "('c, 'n, 'f) equation_elem \<Rightarrow> ('c, 'n, 'f, 'z) style_chain_scheme \<Rightarrow> 'n option" where
  "numbering e styles = resolve_field (numbering_field e) (numbering_style styles) None"

definition supplement ::
  "('c, 'n, 'f) equation_elem \<Rightarrow> ('c, 'n, 'f, 'z) style_chain_scheme \<Rightarrow> ('c, 'f) Supplement option smart" where
  "supplement e styles = resolve_field (supplement_field e) (supplement_style styles) Auto"

text \<open>\<^verbatim>\<open>LocalName::local_name_in\<close>: the local name for the language of the style chain.\<close>

definition local_name_in :: "('c, 'n, 'f, 'z) style_chain_scheme \<Rightarrow> rstr" where
  "local_name_in styles = local_name (text_lang styles) (text_region styles)"

section \<open>The interface to content and counters\<close>

text \<open>
  \<open>content_empty\<close> is \<^verbatim>\<open>Content::empty()\<close>, \<open>packed_text\<close> is \<^verbatim>\<open>TextElem::packed\<close>,
  \<open>is_empty\<close> and \<open>content_plus\<close> are \<^verbatim>\<open>Content::is_empty\<close> and \<^verbatim>\<open>+\<close>; \<open>call\<close> calls a
  supplement function on the element and displays the result; \<open>counter_at\<close> is
  \<^verbatim>\<open>counter.at(vt, location)\<close>, the state of a counter at a location, of type \<open>'k\<close>,
  and \<open>counter_display\<close> is \<^verbatim>\<open>display(vt, &numbering)\<close> on such a state; \<open>pack\<close>,
  \<open>guarded\<close>, \<open>aligned_center\<close> and \<open>styled\<close> build content. A call that returns
  \<^verbatim>\<open>SourceResult\<close> returns an error of type \<open>'e\<close> or a value.
\<close>

datatype text_style = Set_Weight nat | Set_Font "string list"

record ('c, 'n, 'f, 'e, 'k) meta_ops =
  content_empty :: 'c
  packed_text :: "rstr \<Rightarrow> 'c"
  is_empty :: "'c \<Rightarrow> bool"
  content_plus :: "'c \<Rightarrow> 'c \<Rightarrow> 'c"
  call :: "'f \<Rightarrow> ('c, 'n, 'f) equation_elem \<Rightarrow> 'e + 'c"
  counter_at :: "counter \<Rightarrow> nat \<Rightarrow> 'e + 'k"
  counter_display :: "'k \<Rightarrow> 'n \<Rightarrow> 'e + 'c"
  pack :: "('c, 'n, 'f) equation_elem \<Rightarrow> 'c"
  guarded :: "'c \<Rightarrow> 'c"
  aligned_center :: "'c \<Rightarrow> 'c"
  styled :: "'c \<Rightarrow> text_style \<Rightarrow> 'c"

text \<open>\<^verbatim>\<open>Supplement::resolve\<close>: content as it is, a function called on the element.\<close>

definition resolve ::
  "('c, 'n, 'f, 'e, 'k) meta_ops \<Rightarrow> ('c, 'f) Supplement \<Rightarrow> ('c, 'n, 'f) equation_elem \<Rightarrow> 'e + 'c" where
  "resolve ops s e = (case s of Supplement_Content c \<Rightarrow> Inr c | Supplement_Func f \<Rightarrow> call ops f e)"

section \<open>The traits\<close>

text \<open>
  The first statement of \<^verbatim>\<open>synthesize\<close>: the supplement that the element resolves to, or
  the error of the supplement function.
\<close>

definition resolved_supplement ::
  "('c, 'n, 'f, 'e, 'k) meta_ops \<Rightarrow> ('c, 'n, 'f) equation_elem \<Rightarrow> ('c, 'n, 'f, 'z) style_chain_scheme \<Rightarrow> 'e + 'c"
  where
  "resolved_supplement ops e styles =
     (case supplement e styles of
        Auto \<Rightarrow> Inr (packed_text ops (local_name_in styles))
      | Custom None \<Rightarrow> Inr (content_empty ops)
      | Custom (Some s) \<Rightarrow> resolve ops s e)"

text \<open>
  \<^verbatim>\<open>Synthesize\<close>: resolve the supplement, then set the three fields on the element to
  what they resolve to under the style chain.
\<close>

definition synthesize ::
  "('c, 'n, 'f, 'e, 'k) meta_ops \<Rightarrow> ('c, 'n, 'f) equation_elem \<Rightarrow> ('c, 'n, 'f, 'z) style_chain_scheme
     \<Rightarrow> 'e + ('c, 'n, 'f) equation_elem" where
  "synthesize ops e styles =
     (case resolved_supplement ops e styles of
        Inl err \<Rightarrow> Inl err
      | Inr c \<Rightarrow>
          (let e = e\<lparr>block_field := Some (block e styles)\<rparr>;
               e = e\<lparr>numbering_field := Some (numbering e styles)\<rparr>;
               e = e\<lparr>supplement_field := Some (Custom (Some (Supplement_Content c)))\<rparr>
           in Inr e))"

text \<open>\<^verbatim>\<open>Show\<close>: the element itself, guarded against its own show rule, centred when it is a block.\<close>

definition show_equation ::
  "('c, 'n, 'f, 'e, 'k) meta_ops \<Rightarrow> ('c, 'n, 'f) equation_elem \<Rightarrow> ('c, 'n, 'f, 'z) style_chain_scheme \<Rightarrow> 'e + 'c" where
  "show_equation ops e styles =
     (let realized = guarded ops (pack ops e);
          realized = (if block e styles then aligned_center ops realized else realized)
      in Inr realized)"

text \<open>\<^verbatim>\<open>Finalize\<close>: the weight 450 and the math font.\<close>

definition finalize :: "('c, 'n, 'f, 'e, 'k) meta_ops \<Rightarrow> 'c \<Rightarrow> 'c" where
  "finalize ops realized =
     styled ops (styled ops realized (Set_Weight 450)) (Set_Font [''New Computer Modern Math''])"

text \<open>\<^verbatim>\<open>Count::update\<close>: a numbered block equation steps the counter.\<close>

definition count_update :: "('c, 'n, 'f) equation_elem \<Rightarrow> counter_update option" where
  "count_update e =
     (if block e default_styles \<and> numbering e default_styles \<noteq> None then Some (Step 1) else None)"

text \<open>\<^verbatim>\<open>Refable\<close>: the supplement, the counter and the numbering.\<close>

definition refable_supplement :: "('c, 'n, 'f, 'e, 'k) meta_ops \<Rightarrow> ('c, 'n, 'f) equation_elem \<Rightarrow> 'c" where
  "refable_supplement ops e =
     (case supplement e default_styles of
        Custom (Some (Supplement_Content c)) \<Rightarrow> c
      | _ \<Rightarrow> content_empty ops)"

definition refable_counter :: "('c, 'n, 'f) equation_elem \<Rightarrow> counter" where
  "refable_counter e = Counter_Of ''equation''"

definition refable_numbering :: "('c, 'n, 'f) equation_elem \<Rightarrow> 'n option" where
  "refable_numbering e = numbering e default_styles"

text \<open>
  \<^verbatim>\<open>Outlinable::outline\<close>: nothing without a numbering; else the supplement, a
  no-break space after it when it is not empty, and the number of the equation at its
  location. The \<^verbatim>\<open>unwrap\<close> of the location panics; the state of the counter at the
  location and its display can each fail with an error.
\<close>

definition outline ::
  "('c, 'n, 'f, 'e, 'k) meta_ops \<Rightarrow> ('c, 'n, 'f) equation_elem \<Rightarrow> ('e + 'c option) result" where
  "outline ops e =
     (case numbering e default_styles of
        None \<Rightarrow> Inr (Inr None)
      | Some n \<Rightarrow>
          (let s = (case supplement e default_styles of
                      Custom (Some (Supplement_Content c)) \<Rightarrow> c
                    | _ \<Rightarrow> content_empty ops);
               s = (if \<not> is_empty ops s then content_plus ops s (packed_text ops [0xA0]) else s)
           in rbind (unwrap (location e)) (\<lambda>loc.
              case counter_at ops (refable_counter e) loc of
                Inl err \<Rightarrow> Inr (Inl err)
              | Inr state \<Rightarrow>
                  (case counter_display ops state n of
                     Inl err \<Rightarrow> Inr (Inl err)
                   | Inr numbers \<Rightarrow> Inr (Inr (Some (content_plus ops s numbers)))))))"

text \<open>The two calls on the counter in a row, the first error first.\<close>

abbreviation display_at :: "('c, 'n, 'f, 'e, 'k) meta_ops \<Rightarrow> counter \<Rightarrow> nat \<Rightarrow> 'n \<Rightarrow> 'e + 'c" where
  "display_at ops c loc n \<equiv>
     (case counter_at ops c loc of Inl err \<Rightarrow> Inl err | Inr state \<Rightarrow> counter_display ops state n)"

section \<open>An instance of the interface\<close>

text \<open>
  Content that is plain text: concatenation is append, a supplement function answers
  \<open>F\<close>, and a counter displays the number given as numbering. The properties below are
  applied to it.
\<close>

definition text_meta :: "(rstr, nat, unit, unit, nat) meta_ops" where
  "text_meta =
     \<lparr>content_empty = [], packed_text = (\<lambda>t. t), is_empty = (\<lambda>c. c = []),
      content_plus = (\<lambda>a b. a @ b), call = (\<lambda>f e. Inr [70]),
      counter_at = (\<lambda>k loc. Inr 1), counter_display = (\<lambda>state n. Inr [40, 48 + n, 41]),
      pack = body, guarded = (\<lambda>c. c),
      aligned_center = (\<lambda>c. c), styled = (\<lambda>c st. c)\<rparr>"

definition raw_equation :: "(rstr, nat, unit) equation_elem" where
  "raw_equation =
     \<lparr>block_field = Some True, numbering_field = None, supplement_field = None,
      body = [120], location = Some 0\<rparr>"

definition numbered_styles :: "(rstr, nat, unit) style_chain" where
  "numbered_styles = default_styles\<lparr>numbering_style := Some (Some 1), text_lang := GERMAN\<rparr>"

text \<open>What synthesis makes of \<open>raw_equation\<close> under \<open>numbered_styles\<close>.\<close>

definition synthesized_equation :: "(rstr, nat, unit) equation_elem" where
  "synthesized_equation =
     raw_equation\<lparr>numbering_field := Some (Some 1),
       supplement_field :=
         Some (Custom (Some (Supplement_Content [71, 108, 101, 105, 99, 104, 117, 110, 103])))\<rparr>"

lemmas eval_equation =
  synthesize_def resolved_supplement_def block_def numbering_def supplement_def resolve_field_def local_name_in_def
  local_name_def resolve_def default_styles_def count_update_def refable_supplement_def
  refable_numbering_def refable_counter_def outline_def text_meta_def raw_equation_def
  numbered_styles_def synthesized_equation_def option_eq_def Let_def

section \<open>What synthesis fixes\<close>

text \<open>Synthesis in one update of the element.\<close>

lemma synthesize_eq:
  "synthesize ops e styles =
     (case resolved_supplement ops e styles of
        Inl err \<Rightarrow> Inl err
      | Inr c \<Rightarrow>
          Inr (e\<lparr>block_field := Some (block e styles),
                 numbering_field := Some (numbering e styles),
                 supplement_field := Some (Custom (Some (Supplement_Content c)))\<rparr>))"
  by (simp add: synthesize_def Let_def block_def numbering_def split: sum.split)

lemma synthesize_InrD:
  assumes "synthesize ops e styles = Inr e'"
  obtains c where "resolved_supplement ops e styles = Inr c"
    and "e' = e\<lparr>block_field := Some (block e styles),
                  numbering_field := Some (numbering e styles),
                  supplement_field := Some (Custom (Some (Supplement_Content c)))\<rparr>"
  using assms by (auto simp: synthesize_eq split: sum.splits)

lemma set_field_simps [simp]:
  "resolve_field (Some v) style dflt = v"
  "resolve_field None (Some v) dflt = v"
  "resolve_field None None dflt = dflt"
  by (simp_all add: resolve_field_def)

lemma synthesize_raw_equation:
  "synthesize text_meta raw_equation numbered_styles = Inr synthesized_equation"
  by (simp add: eval_equation)

section \<open>Properties of the element\<close>

text \<open>
  C35. Synthesis fixes the element: when it succeeds, the block flag and the numbering
  of the result are, under every style chain, what they were under the style chain of
  the synthesis; its supplement is content, the content that the supplement resolved
  to; and \<^verbatim>\<open>Refable::supplement\<close> returns that content, so the fallback of its match is
  not taken after synthesis. The body and the location are not changed.
\<close>

theorem synthesize_fixes_fields:
  assumes "synthesize ops e styles = Inr e'"
  shows "block e' styles' = block e styles \<and> numbering e' styles' = numbering e styles
    \<and> resolved_supplement ops e styles = Inr (refable_supplement ops e')
    \<and> supplement e' styles' = Custom (Some (Supplement_Content (refable_supplement ops e')))
    \<and> body e' = body e \<and> location e' = location e"
  using assms
  by (elim synthesize_InrD)
    (simp add: block_def numbering_def supplement_def refable_supplement_def)

theorem synthesize_fixes_fields_witness:
  "synthesize text_meta raw_equation numbered_styles = Inr synthesized_equation
   \<and> refable_supplement text_meta synthesized_equation = [71, 108, 101, 105, 99, 104, 117, 110, 103]
   \<and> numbering synthesized_equation default_styles = Some 1
   \<and> numbering raw_equation default_styles = None"
  using synthesize_fixes_fields [OF synthesize_raw_equation, of default_styles]
  by (simp add: synthesize_raw_equation) (simp add: eval_equation)

text \<open>
  Synthesis is idempotent: an element that synthesis returned is returned
  unchanged by another synthesis, under any style chain, and that synthesis does not
  fail, because the supplement is content by then.
\<close>

theorem synthesize_idempotent:
  assumes "synthesize ops e styles = Inr e'"
  shows "synthesize ops e' styles' = Inr e'"
  using assms
  by (elim synthesize_InrD)
    (simp add: synthesize_eq resolved_supplement_def supplement_def resolve_def block_def
      numbering_def)

theorem synthesize_idempotent_witness:
  "synthesize text_meta raw_equation numbered_styles = Inr synthesized_equation
   \<and> synthesize text_meta synthesized_equation default_styles = Inr synthesized_equation"
  using synthesize_idempotent [OF synthesize_raw_equation, of default_styles]
  by (simp add: synthesize_raw_equation)

text \<open>
  Synthesis fails exactly when the supplement is a function and the call of that
  function fails, and then with the error of the call; an automatic supplement, no
  supplement and a content supplement never fail.
\<close>

theorem synthesize_fails_iff:
  "synthesize ops e styles = Inl err
   \<longleftrightarrow> (\<exists>f. supplement e styles = Custom (Some (Supplement_Func f)) \<and> call ops f e = Inl err)"
  by (auto simp: synthesize_eq resolved_supplement_def resolve_def
      split: sum.splits smart.splits option.splits Supplement.splits)

text \<open>
  After synthesis the counter is stepped exactly by the equations that were
  numbered blocks under the style chain of the synthesis. Before synthesis
  \<^verbatim>\<open>Count::update\<close> sees only what is set on the element itself: a numbering that comes
  from the style chain does not count.
\<close>

theorem count_update_after_synthesis:
  assumes "synthesize ops e styles = Inr e'"
  shows "count_update e' = (if block e styles \<and> numbering e styles \<noteq> None then Some (Step 1) else None)
    \<and> (if numbering_field e = None then count_update e = None else True)"
  using assms
  by (elim synthesize_InrD)
    (simp add: count_update_def block_def numbering_def default_styles_def)

theorem count_update_after_synthesis_witness:
  "synthesize text_meta raw_equation numbered_styles = Inr synthesized_equation
   \<and> count_update synthesized_equation = Some (Step 1)
   \<and> count_update raw_equation = None"
  using count_update_after_synthesis [OF synthesize_raw_equation]
  by (simp add: synthesize_raw_equation) (simp add: eval_equation)

text \<open>
  The outline entry of an equation, by cases. Without a numbering there is none. With a
  numbering and without a location the \<^verbatim>\<open>unwrap\<close> of the location panics, whatever the
  supplement is. With both, the entry is the supplement, then a no-break space if the
  supplement is not empty, then the number that the counter displays at the location,
  or the error of the counter.
\<close>

lemma outline_cases:
  "outline ops e =
     (case refable_numbering e of
        None \<Rightarrow> Inr (Inr None)
      | Some n \<Rightarrow>
          (case location e of
             None \<Rightarrow> Inl Unwrap_None
           | Some loc \<Rightarrow>
               Inr (map_sum (\<lambda>err. err)
                 (\<lambda>numbers. Some (content_plus ops
                    (if is_empty ops (refable_supplement ops e) then refable_supplement ops e
                     else content_plus ops (refable_supplement ops e) (packed_text ops [0xA0]))
                    numbers))
                 (display_at ops (Counter_Of ''equation'') loc n))))"
  by (simp add: outline_def refable_numbering_def refable_supplement_def refable_counter_def
      Let_def split: option.split sum.split)

text \<open>
  C38. \<^verbatim>\<open>outline\<close> panics exactly for an equation that has a numbering and no location:
  the panic is that of the \<^verbatim>\<open>unwrap\<close> of the location, it does not depend on the
  supplement or on the counter, and an equation without a numbering never reaches it.
\<close>

theorem outline_panics_iff:
  "outline ops e = Inl p
   \<longleftrightarrow> p = Unwrap_None \<and> refable_numbering e \<noteq> None \<and> location e = None"
  by (auto simp: outline_cases split: option.splits)

text \<open>
  The outline entry after synthesis: a numbered equation with a location whose
  synthesis succeeded has the entry that is made of the supplement that synthesis
  resolved and of the number, and asking for it does not panic.
\<close>

theorem outline_after_synthesis:
  assumes "synthesize ops e styles = Inr e'"
    and "numbering e styles = Some n" and "location e = Some loc"
    and "display_at ops (Counter_Of ''equation'') loc n = Inr numbers"
  shows "\<exists>c. resolved_supplement ops e styles = Inr c
    \<and> outline ops e' =
        Inr (Inr (Some (content_plus ops
          (if is_empty ops c then c else content_plus ops c (packed_text ops [0xA0])) numbers)))"
  using assms
  by (elim synthesize_InrD)
    (auto simp: outline_def numbering_def supplement_def refable_counter_def Let_def
      split: sum.splits)

theorem outline_after_synthesis_witness:
  "synthesize text_meta raw_equation numbered_styles = Inr synthesized_equation
   \<and> outline text_meta synthesized_equation
       = Inr (Inr (Some [71, 108, 101, 105, 99, 104, 117, 110, 103, 0xA0, 40, 49, 41]))
   \<and> outline text_meta raw_equation = Inr (Inr None)"
proof -
  have "\<exists>c. resolved_supplement text_meta raw_equation numbered_styles = Inr c
    \<and> outline text_meta synthesized_equation =
        Inr (Inr (Some (content_plus text_meta
          (if is_empty text_meta c then c
           else content_plus text_meta c (packed_text text_meta [0xA0])) [40, 49, 41])))"
    by (rule outline_after_synthesis [OF synthesize_raw_equation, of 1 0])
      (simp_all add: eval_equation)
  then show ?thesis
    by (simp add: synthesize_raw_equation) (simp add: resolved_supplement_def eval_equation)
qed

text \<open>
  The local name of an equation depends on the region for Chinese only, where Taiwan
  has a name of its own; a language that the function does not list has the English
  name.
\<close>

lemma local_name_region:
  "(local_name l r \<noteq> local_name l None \<longleftrightarrow> l = CHINESE \<and> r = Some [84, 87])
   \<and> local_name (Other_Lang c) r = local_name ENGLISH None"
  by (cases l) (simp_all add: local_name_def option_eq_def)

end
