(* ===== verification/Equation_Layout.thy ===== *)
theory Equation_Layout
  imports Complex_Main Equation
begin

text \<open>
  \<^verbatim>\<open>impl Layout for EquationElem\<close> of \<^verbatim>\<open>src/crates/typst-library/src/math/mod.rs\<close>: the
  choice of a math font, the frame of the body, the number beside a block equation and
  the line metrics of an inline equation. Lengths (\<^verbatim>\<open>Abs\<close>) are real numbers, so the
  rounding of floating-point arithmetic is not modelled; a region width that is
  infinite is the absent width. Frames are those of the layout engine as far as the
  function uses them: a size, an optional baseline and placed items. The font book, the
  layout of the body (\<^verbatim>\<open>MathContext::layout_frame\<close>) and the layout of the counter are
  the interface \<open>layout_ops\<close>. The theorems give the geometry of the result and the
  errors of the function.
\<close>

section \<open>Lengths, alignment and frames\<close>

type_synonym Abs = real
type_synonym Point = "Abs \<times> Abs"
type_synonym Size = "Abs \<times> Abs"

text \<open>\<^verbatim>\<open>Align\<close> and \<^verbatim>\<open>Align::position\<close>: where an item goes in a free extent.\<close>

datatype align = Left | Center | Right | Top | Horizon | Bottom

fun position :: "align \<Rightarrow> Abs \<Rightarrow> Abs" where
  "position Left extent = 0"
| "position Top extent = 0"
| "position Center extent = extent / 2"
| "position Horizon extent = extent / 2"
| "position Right extent = extent"
| "position Bottom extent = extent"

text \<open>\<^verbatim>\<open>Dir\<close> and \<^verbatim>\<open>Dir::is_positive\<close>.\<close>

datatype dir = LTR | RTL | TTB | BTT

fun is_positive :: "dir \<Rightarrow> bool" where
  "is_positive LTR = True"
| "is_positive TTB = True"
| "is_positive RTL = False"
| "is_positive BTT = False"

text \<open>
  \<^verbatim>\<open>Frame\<close>: the size, the baseline if one is set, and the items with their positions. An
  item is a frame placed as a group, or a leaf (text, a shape, an image) with its size.
\<close>

datatype 'i frame =
  Frame (frame_size: Size) (frame_baseline: "Abs option") (frame_items: "(Point \<times> 'i frame_item) list")
and 'i frame_item = Group "'i frame" | Leaf Size 'i

definition width :: "'i frame \<Rightarrow> Abs" where
  "width f = fst (frame_size f)"

definition height :: "'i frame \<Rightarrow> Abs" where
  "height f = snd (frame_size f)"

definition baseline :: "'i frame \<Rightarrow> Abs" where
  "baseline f = (case frame_baseline f of Some b \<Rightarrow> b | None \<Rightarrow> height f)"

definition ascent :: "'i frame \<Rightarrow> Abs" where
  "ascent f = baseline f"

definition descent :: "'i frame \<Rightarrow> Abs" where
  "descent f = height f - baseline f"

text \<open>\<^verbatim>\<open>Frame::translate\<close>: moves the baseline and the items, unless the offset is zero.\<close>

definition translate :: "'i frame \<Rightarrow> Point \<Rightarrow> 'i frame" where
  "translate f offset =
     (if offset \<noteq> (0, 0)
      then Frame (frame_size f) (map_option (\<lambda>b. b + snd offset) (frame_baseline f))
             (map (\<lambda>(p, i). ((fst p + fst offset, snd p + snd offset), i)) (frame_items f))
      else f)"

text \<open>
  \<^verbatim>\<open>Frame::resize\<close>: sets the size and moves the content to where the alignment puts it
  in the space gained; the offset is computed from the old size.
\<close>

definition resize :: "'i frame \<Rightarrow> Size \<Rightarrow> align \<times> align \<Rightarrow> 'i frame" where
  "resize f target aligns =
     (if frame_size f \<noteq> target
      then (let offset = (position (fst aligns) (fst target - fst (frame_size f)),
                          position (snd aligns) (snd target - snd (frame_size f)))
            in translate (Frame target (frame_baseline f) (frame_items f)) offset)
      else f)"

text \<open>
  \<^verbatim>\<open>Frame::push_frame\<close>, with the frame added as one group after the items that are
  there; the theorems on the number read it as the last item.
\<close>

definition push_frame :: "'i frame \<Rightarrow> Point \<Rightarrow> 'i frame \<Rightarrow> 'i frame" where
  "push_frame f pos g = Frame (frame_size f) (frame_baseline f) (frame_items f @ [(pos, Group g)])"

section \<open>Styles, regions and the interface\<close>

text \<open>
  The style chain with the properties of text and paragraphs that the layout reads:
  the font families, the direction, the font size that resolves \<^verbatim>\<open>Em\<close> lengths, and the
  leading.
\<close>

record ('c, 'n, 'f) layout_styles = "('c, 'n, 'f) style_chain" +
  text_families :: "string list"
  text_dir :: dir
  text_size :: Abs
  par_leading :: Abs

text \<open>\<^verbatim>\<open>Regions\<close>: the width of the first region, absent when it is infinite, and the base.\<close>

record regions =
  region_width :: "Abs option"
  region_base :: Size

text \<open>
  \<open>select\<close> is \<^verbatim>\<open>world.book().select(family, variant)\<close> for the variant of the style
  chain, \<open>font\<close> is \<^verbatim>\<open>world.font\<close>, \<open>math_constants\<close> says whether the font has a math
  table with constants; \<open>layout_frame\<close> makes the math context for a font and a block
  flag and lays out the element; \<open>layout_counter\<close> displays the counter of equations
  with a numbering and lays it out in a region of the given base; \<open>top_edge\<close> and
  \<open>bottom_edge\<close> resolve the edges of the text against the metrics of the font;
  \<open>meta\<close> is \<^verbatim>\<open>Frame::meta\<close>.
\<close>

record ('c, 'n, 'f, 'e, 'font, 'i) layout_ops =
  select :: "string \<Rightarrow> nat option"
  font :: "nat \<Rightarrow> 'font option"
  math_constants :: "'font \<Rightarrow> bool"
  layout_frame :: "'font \<Rightarrow> bool \<Rightarrow> ('c, 'n, 'f) equation_elem \<Rightarrow> 'e + 'i frame"
  layout_counter :: "'n \<Rightarrow> Size \<Rightarrow> 'e + 'i frame"
  top_edge :: "'font \<Rightarrow> Abs"
  bottom_edge :: "'font \<Rightarrow> Abs"
  meta :: "'i frame \<Rightarrow> 'i frame"

text \<open>An error of the layout: the one that the function raises itself, or one of a call.\<close>

datatype 'e layout_error = Bail string | Failed 'e

section \<open>The layout\<close>

text \<open>\<^verbatim>\<open>Iterator::find_map\<close>.\<close>

fun find_map :: "('a \<Rightarrow> 'b option) \<Rightarrow> 'a list \<Rightarrow> 'b option" where
  "find_map f [] = None"
| "find_map f (x # xs) = (case f x of Some y \<Rightarrow> Some y | None \<Rightarrow> find_map f xs)"

text \<open>
  The closure of the search: the font of a family, if the book has the family, the font
  loads and it has math constants.
\<close>

definition math_font_of :: "('c, 'n, 'f, 'e, 'font, 'i) layout_ops \<Rightarrow> string \<Rightarrow> 'font option" where
  "math_font_of ops family =
     (case select ops family of
        None \<Rightarrow> None
      | Some fid \<Rightarrow>
          (case font ops fid of
             None \<Rightarrow> None
           | Some fnt \<Rightarrow> if math_constants ops fnt then Some fnt else None))"

text \<open>The font of the first family that has one.\<close>

definition find_math_font :: "('c, 'n, 'f, 'e, 'font, 'i) layout_ops \<Rightarrow> string list \<Rightarrow> 'font option" where
  "find_math_font ops families = find_map (math_font_of ops) families"

text \<open>
  \<^verbatim>\<open>NUMBER_GUTTER\<close>, in \<^verbatim>\<open>Em\<close>; it is resolved by the size of the text, which is a real
  number here and is not assumed to be positive.
\<close>

definition NUMBER_GUTTER :: real where
  "NUMBER_GUTTER = 0.5"

text \<open>
  The width of the line of a numbered equation: the width of the region, or when that
  is infinite the width of the body and twice the width of the number and of the gutter.
\<close>

definition number_line_width ::
  "('c, 'n, 'f, 'z) layout_styles_scheme \<Rightarrow> regions \<Rightarrow> 'i frame \<Rightarrow> 'i frame \<Rightarrow> Abs" where
  "number_line_width styles regions frame counter =
     (case region_width regions of
        Some w \<Rightarrow> w
      | None \<Rightarrow> width frame + 2 * (width counter + NUMBER_GUTTER * text_size styles))"

text \<open>
  The number of a block equation: the frame gets the width of the line and the greater
  of the two heights, the body is centred in it, and the number is put at the end of the
  line, centred vertically.
\<close>

definition place_number ::
  "('c, 'n, 'f, 'z) layout_styles_scheme \<Rightarrow> regions \<Rightarrow> 'i frame \<Rightarrow> 'i frame \<Rightarrow> 'i frame" where
  "place_number styles regions frame counter =
     (let w = number_line_width styles regions frame counter;
          h = max (height frame) (height counter);
          frame = resize frame (w, h) (Center, Horizon);
          x = (if is_positive (text_dir styles) then width frame - width counter else 0);
          y = (height frame - height counter) / 2
      in push_frame frame (x, y) counter)"

text \<open>
  The line metrics of an inline equation: ascent and descent are those of the frame
  less a slack of 0.7 of the leading, and at least the edges of the text.
\<close>

definition inline_metrics ::
  "('c, 'n, 'f, 'e, 'font, 'i) layout_ops \<Rightarrow> ('c, 'n, 'f, 'z) layout_styles_scheme \<Rightarrow> 'font
     \<Rightarrow> 'i frame \<Rightarrow> 'i frame" where
  "inline_metrics ops styles fnt frame =
     (let slack = par_leading styles * 0.7;
          top = top_edge ops fnt;
          bottom = - bottom_edge ops fnt;
          a = max top (ascent frame - slack);
          d = max bottom (descent frame - slack);
          frame = translate frame (0, a - baseline frame)
      in Frame (fst (frame_size frame), a + d) (frame_baseline frame) (frame_items frame))"

text \<open>\<^verbatim>\<open>Layout::layout\<close>.\<close>

definition layout ::
  "('c, 'n, 'f, 'e, 'font, 'i) layout_ops \<Rightarrow> ('c, 'n, 'f) equation_elem
     \<Rightarrow> ('c, 'n, 'f, 'z) layout_styles_scheme \<Rightarrow> regions \<Rightarrow> 'e layout_error + 'i frame" where
  "layout ops e styles regions =
     (let blk = block e styles in
      case find_math_font ops (text_families styles) of
        None \<Rightarrow> Inl (Bail ''current font does not support math'')
      | Some fnt \<Rightarrow>
          (case layout_frame ops fnt blk e of
             Inl err \<Rightarrow> Inl (Failed err)
           | Inr frame \<Rightarrow>
               (case (if blk
                      then (case numbering e styles of
                              Some n \<Rightarrow>
                                (case layout_counter ops n (region_base regions) of
                                   Inl err \<Rightarrow> Inl (Failed err)
                                 | Inr counter \<Rightarrow> Inr (place_number styles regions frame counter))
                            | None \<Rightarrow> Inr frame)
                      else Inr (inline_metrics ops styles fnt frame)) of
                  Inl err \<Rightarrow> Inl err
                | Inr frame \<Rightarrow> Inr (meta ops frame))))"

section \<open>Frames under translation\<close>

lemma position_zero [simp]: "position a 0 = 0"
  by (cases a) simp_all

lemma frame_sel_simps [simp]:
  "width (Frame sz b its) = fst sz"
  "height (Frame sz b its) = snd sz"
  "baseline (Frame sz (Some c) its) = c"
  "baseline (Frame sz None its) = snd sz"
  by (simp_all add: width_def height_def baseline_def)

text \<open>A translation by zero changes nothing, so the guard of \<^verbatim>\<open>translate\<close> is not seen.\<close>

lemma translate_eq:
  "translate f offset =
     Frame (frame_size f) (map_option (\<lambda>b. b + snd offset) (frame_baseline f))
       (map (\<lambda>(p, i). ((fst p + fst offset, snd p + snd offset), i)) (frame_items f))"
proof (cases "offset = (0, 0)")
  case True
  have "map (\<lambda>(p, i). ((fst p + fst (0 :: Abs, 0 :: Abs), snd p + snd (0 :: Abs, 0 :: Abs)), i))
      (frame_items f) = frame_items f"
    by (induction "frame_items f") (auto simp: map_idI)
  moreover have "map_option (\<lambda>b. b + 0) (frame_baseline f) = frame_baseline f"
    by (cases "frame_baseline f") simp_all
  ultimately show ?thesis using True by (cases f) (simp add: translate_def)
next
  case False
  then show ?thesis by (simp add: translate_def)
qed

text \<open>Nor is the guard of \<^verbatim>\<open>resize\<close>: for the size it has, the offset is zero.\<close>

lemma resize_eq:
  "resize f target aligns =
     translate (Frame target (frame_baseline f) (frame_items f))
       (position (fst aligns) (fst target - width f), position (snd aligns) (snd target - height f))"
proof (cases "frame_size f = target")
  case True
  then show ?thesis by (cases f) (simp add: resize_def translate_def width_def height_def)
next
  case False
  then show ?thesis by (simp add: resize_def width_def height_def)
qed

section \<open>The number of a block equation\<close>

text \<open>
  The result of the placement in one equation: the body moves by half of the space
  gained in each direction, and the number is the last item.
\<close>

lemma place_number_eq:
  fixes frame counter :: "'i frame"
  defines "h \<equiv> max (height frame) (height counter)"
  shows "place_number styles regions frame counter =
     Frame (number_line_width styles regions frame counter, h)
       (map_option (\<lambda>b. b + (h - height frame) / 2) (frame_baseline frame))
       (map (\<lambda>(p, i).
            ((fst p + (number_line_width styles regions frame counter - width frame) / 2,
              snd p + (h - height frame) / 2), i)) (frame_items frame)
        @ [((if is_positive (text_dir styles)
             then number_line_width styles regions frame counter - width counter else 0,
             (h - height counter) / 2), Group counter)])"
  by (simp add: place_number_def resize_eq translate_eq push_frame_def Let_def h_def)

text \<open>An item lies inside its frame horizontally; the width of an item.\<close>

fun item_width :: "'i frame_item \<Rightarrow> Abs" where
  "item_width (Group g) = width g"
| "item_width (Leaf sz i) = fst sz"

definition inside :: "'i frame \<Rightarrow> bool" where
  "inside f \<longleftrightarrow> list_all (\<lambda>(p, i). 0 \<le> fst p \<and> fst p + item_width i \<le> width f) (frame_items f)"

text \<open>In a region of infinite width the line is wide enough for the body and two numbers.\<close>

lemma number_line_width_infinite:
  assumes "region_width regions = None" and "0 \<le> text_size styles"
  shows "width frame + 2 * width counter \<le> number_line_width styles regions frame counter"
  using assms by (simp add: number_line_width_def NUMBER_GUTTER_def)

section \<open>The search for a font\<close>

lemma find_map_eq_None_iff: "find_map f xs = None \<longleftrightarrow> list_all (\<lambda>x. f x = None) xs"
  by (induction xs) (auto split: option.splits)

text \<open>The search returns the font of the first family that has one, in the order of the list.\<close>

lemma find_map_eq_Some_iff:
  "find_map f xs = Some y \<longleftrightarrow>
     (\<exists>k < length xs. f (xs ! k) = Some y \<and> list_all (\<lambda>x. f x = None) (take k xs))"
proof (induction xs)
  case Nil
  show ?case by simp
next
  case (Cons x xs)
  show ?case
  proof (cases "f x")
    case None
    have "(\<exists>k < length (x # xs). f ((x # xs) ! k) = Some y \<and> list_all (\<lambda>x. f x = None) (take k (x # xs)))
      \<longleftrightarrow> (\<exists>k < length xs. f (xs ! k) = Some y \<and> list_all (\<lambda>x. f x = None) (take k xs))"
      (is "?L \<longleftrightarrow> ?R")
    proof
      assume ?L
      then obtain k where k: "k < length (x # xs)" "f ((x # xs) ! k) = Some y"
        "list_all (\<lambda>x. f x = None) (take k (x # xs))" by blast
      with None obtain j where "k = Suc j" by (cases k) auto
      with k show ?R by auto
    next
      assume ?R
      then obtain k where "k < length xs" "f (xs ! k) = Some y"
        "list_all (\<lambda>x. f x = None) (take k xs)" by blast
      with None show ?L by (intro exI [of _ "Suc k"]) simp
    qed
    with None Cons.IH show ?thesis by simp
  next
    case (Some z)
    have "(\<exists>k < length (x # xs). f ((x # xs) ! k) = Some y \<and> list_all (\<lambda>x. f x = None) (take k (x # xs)))
      \<longleftrightarrow> z = y"
    proof
      assume "\<exists>k < length (x # xs). f ((x # xs) ! k) = Some y \<and> list_all (\<lambda>x. f x = None) (take k (x # xs))"
      then obtain k where k: "f ((x # xs) ! k) = Some y"
        "list_all (\<lambda>x. f x = None) (take k (x # xs))" by blast
      with Some show "z = y" by (cases k) auto
    next
      assume "z = y"
      with Some show "\<exists>k < length (x # xs). f ((x # xs) ! k) = Some y \<and> list_all (\<lambda>x. f x = None) (take k (x # xs))"
        by (intro exI [of _ 0]) simp
    qed
    with Some show ?thesis by auto
  qed
qed

section \<open>An instance of the interface\<close>

text \<open>
  One font that has math constants and one that has none; the body of an equation is
  laid out as one leaf of 90 by 10 with its baseline at 8, the number as a frame of 20
  by 6 without a baseline.
\<close>

definition body_frame :: "nat frame" where
  "body_frame = Frame (90, 10) (Some 8) [((0, 0), Leaf (90, 10) 0)]"

definition number_frame :: "nat frame" where
  "number_frame = Frame (20, 6) None []"

definition plain_layout :: "(rstr, nat, unit, unit, nat, nat) layout_ops" where
  "plain_layout =
     \<lparr>select = (\<lambda>family. if family = ''Serif'' then Some 0
                          else if family = ''Math'' then Some 1 else None),
      font = (\<lambda>fid. Some fid), math_constants = (\<lambda>fnt. fnt = 1),
      layout_frame = (\<lambda>fnt blk e. Inr body_frame),
      layout_counter = (\<lambda>n base. Inr number_frame),
      top_edge = (\<lambda>fnt. 7), bottom_edge = (\<lambda>fnt. - 2), meta = (\<lambda>f. f)\<rparr>"

definition plain_styles :: "(rstr, nat, unit) layout_styles" where
  "plain_styles =
     \<lparr>block_style = None, numbering_style = Some (Some 1), supplement_style = None,
      text_lang = ENGLISH, text_region = None,
      text_families = [''Serif'', ''Missing'', ''Math''], text_dir = LTR, text_size = 10,
      par_leading = 5\<rparr>"

definition wide_region :: regions where
  "wide_region = \<lparr>region_width = Some 130, region_base = (130, 200)\<rparr>"

definition narrow_region :: regions where
  "narrow_region = \<lparr>region_width = Some 100, region_base = (100, 200)\<rparr>"

lemmas eval_layout =
  place_number_eq number_line_width_def inline_metrics_def translate_eq
  layout_def find_math_font_def math_font_of_def NUMBER_GUTTER_def inside_def
  width_def height_def baseline_def ascent_def descent_def body_frame_def number_frame_def
  plain_layout_def plain_styles_def wide_region_def narrow_region_def block_def numbering_def
  resolve_field_def raw_equation_def Let_def

section \<open>Properties of the layout\<close>

text \<open>
  C32. The number does not overlap the body: when the items of the body lie inside its
  frame and the line is at least as wide as the body and two numbers, every item of the
  body ends before the number begins where the text runs from left to right, and begins
  after the number ends where it runs from right to left. The width of the line is a
  hypothesis: \<open>number_line_width_infinite\<close> gives it in a region of infinite width
  for a text size that is not negative, and in a finite region the line has the width
  of the region, whatever the body needs.
\<close>

theorem number_clear_of_body:
  fixes frame counter :: "'i frame"
  assumes "inside frame"
    and "width frame + 2 * width counter \<le> number_line_width styles regions frame counter"
  shows "list_all (\<lambda>(p, i).
            if is_positive (text_dir styles)
            then fst p + item_width i
                   \<le> fst (fst (last (frame_items (place_number styles regions frame counter))))
            else fst (fst (last (frame_items (place_number styles regions frame counter))))
                   + width counter \<le> fst p)
          (butlast (frame_items (place_number styles regions frame counter)))"
  using assms
  unfolding place_number_eq inside_def list_all_iff
  by (auto simp: field_simps)

theorem number_clear_of_body_witness:
  "inside body_frame
   \<and> width body_frame + 2 * width number_frame
       \<le> number_line_width plain_styles wide_region body_frame number_frame
   \<and> frame_items (place_number plain_styles wide_region body_frame number_frame)
       = [((20, 0), Leaf (90, 10) 0), ((110, 2), Group number_frame)]"
proof -
  have 1: "inside body_frame"
    by (simp add: inside_def body_frame_def width_def)
  have 2: "width body_frame + 2 * width number_frame
       \<le> number_line_width plain_styles wide_region body_frame number_frame"
    by (simp add: eval_layout)
  have 3: "frame_items (place_number plain_styles wide_region body_frame number_frame)
       = [((20, 0), Leaf (90, 10) 0), ((110, 2), Group number_frame)]"
    by (simp add: eval_layout)
  from number_clear_of_body [OF 1 2] 1 2 3 show ?thesis by simp
qed

text \<open>
  In a region that is narrower than the body and two numbers the body and the number
  overlap: the leaf of the body ends at 95 and the number begins at 80.
\<close>

lemma number_overlaps_wide_body:
  "frame_items (place_number plain_styles narrow_region body_frame number_frame)
     = [((5, 0), Leaf (90, 10) 0), ((80, 2), Group number_frame)]"
  by (simp add: eval_layout)

text \<open>
  C34. The line metrics of an inline equation whose frame has a baseline: the ascent
  and the descent of the result are those of the frame less 0.7 of the leading, and at
  least the top edge and the bottom edge of the text in the math font; the height is
  their sum, the width is kept, and the baseline of the result is its ascent.
\<close>

theorem inline_metrics_baseline:
  assumes "frame_baseline frame = Some b"
  shows "ascent (inline_metrics ops styles fnt frame)
           = max (top_edge ops fnt) (b - par_leading styles * 0.7)
    \<and> descent (inline_metrics ops styles fnt frame)
           = max (- bottom_edge ops fnt) (height frame - b - par_leading styles * 0.7)
    \<and> height (inline_metrics ops styles fnt frame)
           = ascent (inline_metrics ops styles fnt frame)
             + descent (inline_metrics ops styles fnt frame)
    \<and> width (inline_metrics ops styles fnt frame) = width frame
    \<and> frame_baseline (inline_metrics ops styles fnt frame)
           = Some (ascent (inline_metrics ops styles fnt frame))"
  using assms
  by (cases frame)
    (simp add: inline_metrics_def translate_eq ascent_def descent_def
      baseline_def height_def width_def Let_def)

theorem inline_metrics_baseline_witness:
  "frame_baseline body_frame = Some 8
   \<and> ascent (inline_metrics plain_layout plain_styles 1 body_frame) = 7
   \<and> descent (inline_metrics plain_layout plain_styles 1 body_frame) = 2
   \<and> height (inline_metrics plain_layout plain_styles 1 body_frame) = 9"
  using inline_metrics_baseline [of body_frame 8 plain_layout plain_styles 1]
  by (simp add: body_frame_def plain_layout_def plain_styles_def height_def)

text \<open>
  A frame without a baseline gets none: the baseline of the result is then its height,
  so that its ascent is the sum of the two maxima and its descent is zero.
\<close>

lemma inline_metrics_no_baseline:
  assumes "frame_baseline frame = None"
  shows "frame_baseline (inline_metrics ops styles fnt frame) = None
    \<and> ascent (inline_metrics ops styles fnt frame)
          = max (top_edge ops fnt) (height frame - par_leading styles * 0.7)
            + max (- bottom_edge ops fnt) (- (par_leading styles * 0.7))
    \<and> descent (inline_metrics ops styles fnt frame) = 0"
  using assms
  by (cases frame)
    (simp add: inline_metrics_def translate_eq ascent_def descent_def
      baseline_def height_def Let_def)

text \<open>
  The errors of the layout. It fails with its own error exactly when no family of
  the style chain has a font with math constants; with the error of the body when the
  layout of the body fails; and with the error of the counter when the equation is a
  numbered block and the layout of its number fails. An inline equation and a block
  without a numbering never ask for the number.
\<close>

theorem layout_fails_iff:
  "layout ops e styles regions = Inl err \<longleftrightarrow>
     (list_all (\<lambda>family. math_font_of ops family = None) (text_families styles)
        \<and> err = Bail ''current font does not support math'')
     \<or> (\<exists>fnt x. find_math_font ops (text_families styles) = Some fnt
          \<and> layout_frame ops fnt (block e styles) e = Inl x \<and> err = Failed x)
     \<or> (\<exists>fnt frame n x. find_math_font ops (text_families styles) = Some fnt
          \<and> layout_frame ops fnt (block e styles) e = Inr frame
          \<and> block e styles \<and> numbering e styles = Some n
          \<and> layout_counter ops n (region_base regions) = Inl x \<and> err = Failed x)"
  unfolding find_map_eq_None_iff [symmetric] find_math_font_def [symmetric]
  by (auto simp: layout_def Let_def split: option.splits sum.splits if_splits)

text \<open>
  The layout of the instance: the third family is the first with a math font, and the
  number is placed beside the body.
\<close>

lemma layout_plain:
  "find_math_font plain_layout (text_families plain_styles) = Some 1"
  "layout plain_layout raw_equation plain_styles wide_region
     = Inr (Frame (130, 10) (Some 8) [((20, 0), Leaf (90, 10) 0), ((110, 2), Group number_frame)])"
  by (simp_all add: eval_layout)

end
