(* ===== verification/Math_Layout.thy ===== *)
theory Math_Layout
  imports Equation_Layout "HOL-Library.Sublist"
begin

text \<open>
  \<^verbatim>\<open>LayoutMath\<close> for \<^verbatim>\<open>EquationElem\<close> and for \<^verbatim>\<open>Content\<close> of
  \<^verbatim>\<open>src/crates/typst-library/src/math/mod.rs\<close>: the function that walks content and
  pushes math fragments into the \<^verbatim>\<open>MathContext\<close>. Content is a datatype with one
  constructor for every kind that the function tells apart. The context is a record of
  the fields that the function reads and writes; the function takes it and returns it,
  on failure together with the error, because the caller keeps the context that a
  failed call has changed. Show rules, the layout of text and of other content, the
  other math elements and the collapsing of the children of a sequence are the
  interface \<open>math_ops\<close>. A show rule can return content to which a show rule applies
  again, so the recursion has fuel: \<open>None\<close> says that the fuel ran out.
\<close>

section \<open>Content, fragments and the context\<close>

text \<open>\<^verbatim>\<open>Length\<close> (an absolute part and a part in \<^verbatim>\<open>Em\<close>) and \<^verbatim>\<open>Spacing\<close>.\<close>

record length =
  abs_part :: Abs
  em_part :: real

datatype spacing = Rel real length | Fr real

text \<open>
  The kinds of content: an equation with its body, a sequence, styled content, a
  space, a line break, horizontal spacing, text, another element that implements
  \<^verbatim>\<open>LayoutMath\<close>, and anything else.
\<close>

datatype ('p, 'x) content =
    Equation "('p, 'x) content"
  | Sequence "('p, 'x) content list"
  | Styled "('p, 'x) content" "'p list"
  | Space
  | Linebreak
  | H spacing
  | Text rstr
  | Math 'x
  | Other 'x

text \<open>
  \<^verbatim>\<open>MathFragment\<close>: the fragments that this file makes, and those that the layout of
  text and of other elements makes. A frame fragment records the font size of the
  context that made it and whether it is spaced.
\<close>

datatype ('i, 'g) fragment =
    Space_Fragment Abs
  | Linebreak_Fragment
  | Spacing_Fragment Abs
  | Frame_Fragment "'i frame" Abs bool
  | Glyphs 'g

text \<open>
  \<^verbatim>\<open>MathContext\<close>: the outer style chain (its links, the innermost first), the local
  styles, the font size, the width of a space and the height of the axis of the font in
  \<^verbatim>\<open>Em\<close>, and the fragments made so far.
\<close>

record ('p, 'i, 'g) math_context =
  ctx_outer :: "'p list list"
  ctx_local :: "'p list"
  ctx_size :: Abs
  space_width :: real
  axis_height :: real
  ctx_fragments :: "('i, 'g) fragment list"

text \<open>The result of a call on the context: the context, or an error and the context.\<close>

type_synonym ('e, 's) ctx_result = "('e \<times> 's) + 's"

text \<open>
  \<open>realize\<close> applies the show rules under a style chain; \<open>behaved\<close> is what
  \<^verbatim>\<open>BehavedBuilder\<close> leaves of the children of a sequence; \<open>font_in\<close> and \<open>size_in\<close> read the
  font and the size of the text from a style chain; \<open>layout_content\<close> and \<open>layout_text\<close>
  are the methods of the context; \<open>elem_layout_math\<close> is \<^verbatim>\<open>layout_math\<close> of another
  math element. The code calls \<^verbatim>\<open>realize\<close>, \<^verbatim>\<open>layout_content\<close> and \<^verbatim>\<open>layout_text\<close> on
  the context by mutable reference. They are code of \<^verbatim>\<open>ctx.rs\<close>; the model lets them
  read the context and takes it that they leave its fields as they are, which is an
  assumption on that file, as \<open>well_behaved\<close> is one on the other math elements.
\<close>

record ('p, 'x, 'e, 'i, 'g, 'fl) math_ops =
  realize :: "'p list list \<Rightarrow> ('p, 'x) content \<Rightarrow> 'e + ('p, 'x) content option"
  behaved :: "('p, 'x) content list \<Rightarrow> ('p, 'x) content list"
  font_in :: "'p list list \<Rightarrow> 'fl"
  size_in :: "'p list list \<Rightarrow> Abs"
  layout_content :: "('p, 'i, 'g) math_context \<Rightarrow> ('p, 'x) content \<Rightarrow> 'e + 'i frame"
  layout_text :: "('p, 'i, 'g) math_context \<Rightarrow> rstr \<Rightarrow> 'e + ('i, 'g) fragment"
  elem_layout_math :: "'x \<Rightarrow> ('p, 'i, 'g) math_context \<Rightarrow> ('e, ('p, 'i, 'g) math_context) ctx_result"

text \<open>\<^verbatim>\<open>MathContext::styles\<close>, \<^verbatim>\<open>MathContext::push\<close> and \<^verbatim>\<open>Styles::apply\<close>.\<close>

definition styles :: "('p, 'i, 'g) math_context \<Rightarrow> 'p list list" where
  "styles ctx = ctx_local ctx # ctx_outer ctx"

definition push :: "('p, 'i, 'g) math_context \<Rightarrow> ('i, 'g) fragment \<Rightarrow> ('p, 'i, 'g) math_context" where
  "push ctx fr = ctx\<lparr>ctx_fragments := ctx_fragments ctx @ [fr]\<rparr>"

definition apply_styles :: "'p list \<Rightarrow> 'p list \<Rightarrow> 'p list" where
  "apply_styles inner outer = outer @ inner"

section \<open>The walk\<close>

text \<open>
  A \<^verbatim>\<open>for\<close> loop whose body is called with \<^verbatim>\<open>?\<close>: it stops at the first error, and when
  the fuel of a call ran out.
\<close>

fun for_each :: "('a \<Rightarrow> 's \<Rightarrow> ('e, 's) ctx_result option) \<Rightarrow> 'a list \<Rightarrow> 's \<Rightarrow> ('e, 's) ctx_result option" where
  "for_each f [] s = Some (Inr s)"
| "for_each f (x # xs) s =
     (case f x s of
        None \<Rightarrow> None
      | Some (Inl err) \<Rightarrow> Some (Inl err)
      | Some (Inr s') \<Rightarrow> for_each f xs s')"

text \<open>
  The fallback at the end of the function, which is also the layout of styled content
  that changes the font: the content is laid out as a frame and pushed as a spaced
  fragment. The fallback gives a frame without a baseline one on the axis of the font
  (\<^verbatim>\<open>has_baseline\<close>, \<^verbatim>\<open>set_baseline\<close>).
\<close>

definition push_content ::
  "('p, 'x, 'e, 'i, 'g, 'fl) math_ops \<Rightarrow> bool \<Rightarrow> ('p, 'x) content \<Rightarrow> ('p, 'i, 'g) math_context
     \<Rightarrow> ('e, ('p, 'i, 'g) math_context) ctx_result" where
  "push_content ops fix_baseline c ctx =
     (case layout_content ops ctx c of
        Inl err \<Rightarrow> Inl (err, ctx)
      | Inr frame \<Rightarrow>
          (let frame = (if fix_baseline \<and> frame_baseline frame = None
                        then Frame (frame_size frame)
                               (Some (height frame / 2 + axis_height ctx * ctx_size ctx))
                               (frame_items frame)
                        else frame)
           in Inr (push ctx (Frame_Fragment frame (ctx_size ctx) True))))"

text \<open>
  The tests of the function on the kind of content: \<^verbatim>\<open>to::<EquationElem>\<close>,
  \<^verbatim>\<open>to_sequence\<close>, \<^verbatim>\<open>to_styled\<close>, \<^verbatim>\<open>is::<SpaceElem>\<close>, \<^verbatim>\<open>is::<LinebreakElem>\<close>,
  \<^verbatim>\<open>to::<HElem>\<close>, \<^verbatim>\<open>to::<TextElem>\<close> and \<^verbatim>\<open>with::<dyn LayoutMath>\<close>.
\<close>

fun to_equation :: "('p, 'x) content \<Rightarrow> ('p, 'x) content option" where
  "to_equation (Equation b) = Some b"
| "to_equation _ = None"

fun to_sequence :: "('p, 'x) content \<Rightarrow> ('p, 'x) content list option" where
  "to_sequence (Sequence children) = Some children"
| "to_sequence _ = None"

fun to_styled :: "('p, 'x) content \<Rightarrow> (('p, 'x) content \<times> 'p list) option" where
  "to_styled (Styled elem st) = Some (elem, st)"
| "to_styled _ = None"

fun is_space :: "('p, 'x) content \<Rightarrow> bool" where
  "is_space Space = True"
| "is_space _ = False"

fun is_linebreak :: "('p, 'x) content \<Rightarrow> bool" where
  "is_linebreak Linebreak = True"
| "is_linebreak _ = False"

fun to_h :: "('p, 'x) content \<Rightarrow> spacing option" where
  "to_h (H amount) = Some amount"
| "to_h _ = None"

fun to_text :: "('p, 'x) content \<Rightarrow> rstr option" where
  "to_text (Text t) = Some t"
| "to_text _ = None"

fun with_layout_math :: "('p, 'x) content \<Rightarrow> 'x option" where
  "with_layout_math (Math x) = Some x"
| "with_layout_math _ = None"

text \<open>
  The branch for styled content that keeps the font: the local styles and the size of
  the context are saved, the styles of the content are put under the saved ones, the
  size is read again, the element is laid out by \<open>rec\<close>, and the saved values are put
  back. A failure of \<open>rec\<close> returns before they are.
\<close>

definition layout_styled ::
  "('p, 'x, 'e, 'i, 'g, 'fl) math_ops
     \<Rightarrow> (('p, 'x) content \<Rightarrow> ('p, 'i, 'g) math_context \<Rightarrow> ('e, ('p, 'i, 'g) math_context) ctx_result option)
     \<Rightarrow> ('p, 'x) content \<Rightarrow> 'p list \<Rightarrow> ('p, 'i, 'g) math_context
     \<Rightarrow> ('e, ('p, 'i, 'g) math_context) ctx_result option" where
  "layout_styled ops rec elem st ctx =
     (let prev_map = ctx_local ctx;
          prev_size = ctx_size ctx;
          ctx = ctx\<lparr>ctx_local := apply_styles st prev_map\<rparr>;
          ctx = ctx\<lparr>ctx_size := size_in ops (styles ctx)\<rparr>
      in case rec elem ctx of
           None \<Rightarrow> None
         | Some (Inl err) \<Rightarrow> Some (Inl err)
         | Some (Inr ctx) \<Rightarrow> Some (Inr (ctx\<lparr>ctx_size := prev_size, ctx_local := prev_map\<rparr>)))"

text \<open>
  The branch for horizontal spacing: only a length without a relative part is pushed,
  resolved by the size of the text (\<^verbatim>\<open>Length::resolve\<close>).
\<close>

definition layout_h ::
  "('p, 'x, 'e, 'i, 'g, 'fl) math_ops \<Rightarrow> spacing \<Rightarrow> ('p, 'i, 'g) math_context
     \<Rightarrow> ('p, 'i, 'g) math_context" where
  "layout_h ops amount ctx =
     (case amount of
        Rel ratio l \<Rightarrow>
          if ratio = 0
          then push ctx (Spacing_Fragment (abs_part l + em_part l * size_in ops (styles ctx)))
          else ctx
      | Fr fr \<Rightarrow> ctx)"

text \<open>
  The body of \<^verbatim>\<open>layout_math\<close> for content, with \<^verbatim>\<open>layout_math\<close> for the equation
  element as its first case; \<open>rec\<close> stands for the recursive calls. The tests are made
  in the order of the code.
\<close>

definition layout_step ::
  "('p, 'x, 'e, 'i, 'g, 'fl) math_ops
     \<Rightarrow> (('p, 'x) content \<Rightarrow> ('p, 'i, 'g) math_context \<Rightarrow> ('e, ('p, 'i, 'g) math_context) ctx_result option)
     \<Rightarrow> ('p, 'x) content \<Rightarrow> ('p, 'i, 'g) math_context
     \<Rightarrow> ('e, ('p, 'i, 'g) math_context) ctx_result option" where
  "layout_step ops rec c ctx =
     (case to_equation c of
        Some b \<Rightarrow> rec b ctx
      | None \<Rightarrow>
     (case realize ops (styles ctx) c of
        Inl err \<Rightarrow> Some (Inl (err, ctx))
      | Inr (Some realized) \<Rightarrow> rec realized ctx
      | Inr None \<Rightarrow>
     (case to_sequence c of
        Some children \<Rightarrow> for_each rec (behaved ops children) ctx
      | None \<Rightarrow>
     (case to_styled c of
        Some (elem, st) \<Rightarrow>
          if font_in ops (st # styles ctx) \<noteq> font_in ops (styles ctx)
          then Some (push_content ops False c ctx)
          else layout_styled ops rec elem st ctx
      | None \<Rightarrow>
     if is_space c then Some (Inr (push ctx (Space_Fragment (space_width ctx * ctx_size ctx))))
     else if is_linebreak c then Some (Inr (push ctx Linebreak_Fragment))
     else
     (case to_h c of
        Some amount \<Rightarrow> Some (Inr (layout_h ops amount ctx))
      | None \<Rightarrow>
     (case to_text c of
        Some t \<Rightarrow>
          (case layout_text ops ctx t of
             Inl err \<Rightarrow> Some (Inl (err, ctx))
           | Inr fragment \<Rightarrow> Some (Inr (push ctx fragment)))
      | None \<Rightarrow>
     (case with_layout_math c of
        Some x \<Rightarrow> Some (elem_layout_math ops x ctx)
      | None \<Rightarrow> Some (push_content ops True c ctx))))))))"

text \<open>\<^verbatim>\<open>layout_math\<close>: the body, as often as there is fuel.\<close>

primrec layout_math ::
  "nat \<Rightarrow> ('p, 'x, 'e, 'i, 'g, 'fl) math_ops \<Rightarrow> ('p, 'x) content \<Rightarrow> ('p, 'i, 'g) math_context
     \<Rightarrow> ('e, ('p, 'i, 'g) math_context) ctx_result option" where
  "layout_math 0 ops c ctx = None"
| "layout_math (Suc n) ops c ctx = layout_step ops (layout_math n ops) c ctx"

section \<open>What a successful walk leaves of the context\<close>

text \<open>
  \<open>extends ctx ctx'\<close>: the two contexts differ only in that the second has more
  fragments after those of the first.
\<close>

definition extends :: "('p, 'i, 'g) math_context \<Rightarrow> ('p, 'i, 'g) math_context \<Rightarrow> bool" where
  "extends ctx ctx' \<longleftrightarrow>
     ctx_outer ctx' = ctx_outer ctx \<and> ctx_local ctx' = ctx_local ctx
     \<and> ctx_size ctx' = ctx_size ctx \<and> space_width ctx' = space_width ctx
     \<and> axis_height ctx' = axis_height ctx
     \<and> prefix (ctx_fragments ctx) (ctx_fragments ctx')"

text \<open>The other math elements keep to this: what is assumed of \<open>elem_layout_math\<close>.\<close>

definition well_behaved :: "('p, 'x, 'e, 'i, 'g, 'fl) math_ops \<Rightarrow> bool" where
  "well_behaved ops \<longleftrightarrow>
     (\<forall>x ctx ctx'. elem_layout_math ops x ctx = Inr ctx' \<longrightarrow> extends ctx ctx')"

lemma extends_refl [simp]: "extends ctx ctx"
  by (simp add: extends_def)

lemma extends_trans: "extends a b \<Longrightarrow> extends b c \<Longrightarrow> extends a c"
  by (auto simp: extends_def)

lemma extends_push [simp]: "extends ctx (push ctx fr)"
  by (simp add: extends_def push_def)

lemma push_content_extends:
  "push_content ops fix c ctx = Inr ctx' \<Longrightarrow> extends ctx ctx'"
  by (auto simp: push_content_def Let_def split: sum.splits)

lemma layout_h_extends [simp]: "extends ctx (layout_h ops amount ctx)"
  by (simp add: layout_h_def split: spacing.split)

lemma for_each_extends:
  assumes "\<And>x s s'. x \<in> set xs \<Longrightarrow> f x s = Some (Inr s') \<Longrightarrow> extends s s'"
    and "for_each f xs s = Some (Inr s')"
  shows "extends s s'"
  using assms
proof (induction xs arbitrary: s)
  case Nil
  then show ?case by simp
next
  case (Cons x xs)
  from Cons.prems(2) obtain s1 where 1: "f x s = Some (Inr s1)" and 2: "for_each f xs s1 = Some (Inr s')"
    by (auto split: option.splits sum.splits)
  from 1 have "extends s s1" by (rule Cons.prems(1) [rotated]) simp
  moreover from 2 have "extends s1 s'" by (rule Cons.IH [rotated]) (auto intro: Cons.prems(1))
  ultimately show ?case by (rule extends_trans)
qed

text \<open>The styled branch puts back the two fields that it changes.\<close>

lemma layout_styled_extends:
  assumes "\<And>a b. rec elem a = Some (Inr b) \<Longrightarrow> extends a b"
    and "layout_styled ops rec elem st ctx = Some (Inr ctx')"
  shows "extends ctx ctx'"
proof -
  let ?inner = "ctx\<lparr>ctx_local := apply_styles st (ctx_local ctx),
    ctx_size := size_in ops (styles (ctx\<lparr>ctx_local := apply_styles st (ctx_local ctx)\<rparr>))\<rparr>"
  from assms(2) obtain b where b: "rec elem ?inner = Some (Inr b)"
    and c: "ctx' = b\<lparr>ctx_size := ctx_size ctx, ctx_local := ctx_local ctx\<rparr>"
    by (auto simp: layout_styled_def Let_def split: option.splits sum.splits)
  from assms(1) [OF b] show ?thesis unfolding c by (simp add: extends_def)
qed

lemma layout_step_extends:
  assumes "well_behaved ops"
    and rec: "\<And>c a b. rec c a = Some (Inr b) \<Longrightarrow> extends a b"
    and "layout_step ops rec c ctx = Some (Inr ctx')"
  shows "extends ctx ctx'"
proof -
  have styled: "extends a b" if "layout_styled ops rec elem st a = Some (Inr b)" for elem st a b
    using that by (rule layout_styled_extends [rotated]) (rule rec)
  have each: "extends a b" if "for_each rec xs a = Some (Inr b)" for xs a b
    using that by (rule for_each_extends [rotated]) (rule rec)
  from assms(1,3) show ?thesis
    by (auto simp: layout_step_def well_behaved_def
        split: option.splits sum.splits if_splits
        dest: rec push_content_extends styled each)
qed

section \<open>Fuel\<close>

text \<open>A loop over calls that return returns, and more fuel for the calls changes nothing.\<close>

lemma for_each_mono:
  assumes "\<And>x s r. x \<in> set xs \<Longrightarrow> f x s = Some r \<Longrightarrow> g x s = Some r"
    and "for_each f xs s = Some r"
  shows "for_each g xs s = Some r"
  using assms
proof (induction xs arbitrary: s)
  case Nil
  then show ?case by simp
next
  case (Cons x xs)
  from Cons.prems(2) obtain r1 where 1: "f x s = Some r1" by (auto split: option.splits)
  then have 2: "g x s = Some r1" by (rule Cons.prems(1) [rotated]) simp
  show ?case
  proof (cases r1)
    case (Inl err)
    with 1 2 Cons.prems(2) show ?thesis by auto
  next
    case (Inr s1)
    with 1 Cons.prems(2) have "for_each f xs s1 = Some r" by simp
    then have "for_each g xs s1 = Some r" by (rule Cons.IH [rotated]) (auto intro: Cons.prems(1))
    with 2 Inr show ?thesis by simp
  qed
qed

lemma for_each_total:
  assumes "\<And>x s. x \<in> set xs \<Longrightarrow> \<exists>r. f x s = Some r"
  shows "\<exists>r. for_each f xs s = Some r"
  using assms
proof (induction xs arbitrary: s)
  case Nil
  show ?case by simp
next
  case (Cons x xs)
  from Cons.prems [of x s] obtain r1 where 1: "f x s = Some r1" by auto
  show ?case
  proof (cases r1)
    case (Inl err)
    with 1 show ?thesis by simp
  next
    case (Inr s1)
    from Cons.IH [of s1] Cons.prems obtain r where "for_each f xs s1 = Some r" by auto
    with 1 Inr show ?thesis by simp
  qed
qed

lemma layout_styled_mono:
  assumes "\<And>a r. rec elem a = Some r \<Longrightarrow> rec' elem a = Some r"
    and "layout_styled ops rec elem st ctx = Some r"
  shows "layout_styled ops rec' elem st ctx = Some r"
  using assms(2)
  by (auto simp: layout_styled_def Let_def split: option.splits sum.splits dest!: assms(1))

lemma layout_step_mono:
  assumes rec: "\<And>c a r. rec c a = Some r \<Longrightarrow> rec' c a = Some r"
    and "layout_step ops rec c ctx = Some r"
  shows "layout_step ops rec' c ctx = Some r"
proof -
  have styled: "layout_styled ops rec' elem st a = Some r"
    if "layout_styled ops rec elem st a = Some r" for elem st a r
    using that by (rule layout_styled_mono [rotated]) (rule rec)
  have each: "for_each rec' xs a = Some r" if "for_each rec xs a = Some r" for xs a r
    using that by (rule for_each_mono [rotated]) (rule rec)
  from assms(2) show ?thesis
    by (auto simp: layout_step_def split: option.splits sum.splits if_splits
        dest: rec styled each)
qed

lemma layout_math_Suc:
  "layout_math n ops c ctx = Some r \<Longrightarrow> layout_math (Suc n) ops c ctx = Some r"
proof (induction n arbitrary: c ctx r)
  case 0
  then show ?case by simp
next
  case (Suc n)
  from Suc.prems have "layout_step ops (layout_math n ops) c ctx = Some r" by simp
  then have "layout_step ops (layout_math (Suc n) ops) c ctx = Some r"
    by (rule layout_step_mono [rotated]) (rule Suc.IH)
  then show ?case by simp
qed

text \<open>The result of a call does not depend on the fuel, once the fuel is enough.\<close>

lemma layout_math_fuel_mono:
  assumes "layout_math n ops c ctx = Some r" and "n \<le> m"
  shows "layout_math m ops c ctx = Some r"
  using assms(2,1)
proof (induction rule: dec_induct)
  case base
  then show ?case .
next
  case (step k)
  then show ?case by (intro layout_math_Suc) simp
qed

section \<open>Enough fuel\<close>

text \<open>
  The nesting of content, the content that a call walks into, and the two assumptions
  under which the nesting bounds the fuel: no show rule applies, and what is left of the
  children of a sequence are children of the sequence.
\<close>

fun depth :: "('p, 'x) content \<Rightarrow> nat" where
  "depth (Equation b) = Suc (depth b)"
| "depth (Sequence children) = Suc (Max (insert 0 (depth ` set children)))"
| "depth (Styled elem st) = Suc (depth elem)"
| "depth _ = 0"

definition no_show_rules :: "('p, 'x, 'e, 'i, 'g, 'fl) math_ops \<Rightarrow> bool" where
  "no_show_rules ops \<longleftrightarrow> (\<forall>chain c. realize ops chain c = Inr None)"

definition collapsing :: "('p, 'x, 'e, 'i, 'g, 'fl) math_ops \<Rightarrow> bool" where
  "collapsing ops \<longleftrightarrow> (\<forall>children. set (behaved ops children) \<subseteq> set children)"

lemma layout_styled_total:
  assumes "\<And>a. \<exists>r. rec elem a = Some r"
  shows "\<exists>r. layout_styled ops rec elem st ctx = Some r"
proof -
  let ?inner = "ctx\<lparr>ctx_local := apply_styles st (ctx_local ctx),
    ctx_size := size_in ops (styles (ctx\<lparr>ctx_local := apply_styles st (ctx_local ctx)\<rparr>))\<rparr>"
  from assms [of ?inner] obtain r where "rec elem ?inner = Some r" by auto
  then show ?thesis by (cases r) (simp_all add: layout_styled_def Let_def)
qed

lemma depth_child:
  "c \<in> set children \<Longrightarrow> depth c < depth (Sequence children)"
  by (simp add: less_Suc_eq_le Max_ge_iff)

lemma layout_step_total:
  assumes "no_show_rules ops" and "collapsing ops"
    and rec: "\<And>c' a. depth c' < depth c \<Longrightarrow> \<exists>r. rec c' a = Some r"
  shows "\<exists>r. layout_step ops rec c ctx = Some r"
proof (cases c)
  case (Equation b)
  with rec [of b ctx] show ?thesis by (simp add: layout_step_def)
next
  case (Sequence children)
  have "\<exists>r. rec x a = Some r" if "x \<in> set (behaved ops children)" for x a
  proof (rule rec)
    from that assms(2) have "x \<in> set children" by (auto simp: collapsing_def)
    then show "depth x < depth c" unfolding Sequence by (rule depth_child)
  qed
  then have "\<exists>r. for_each rec (behaved ops children) ctx = Some r" by (rule for_each_total)
  with assms(1) Sequence show ?thesis by (simp add: layout_step_def no_show_rules_def)
next
  case (Styled elem st)
  have "\<exists>r. rec elem a = Some r" for a
    by (rule rec) (simp add: Styled)
  then have "\<exists>r. layout_styled ops rec elem st ctx = Some r"
    by (rule layout_styled_total)
  with assms(1) Styled show ?thesis by (simp add: layout_step_def no_show_rules_def)
qed (use assms(1) in \<open>simp_all add: layout_step_def no_show_rules_def split: sum.split\<close>)

section \<open>An instance of the interface\<close>

text \<open>
  No show rules, every child of a sequence kept, one font, the size of the text the
  last entry of the local styles (10 without one); text lays out as its glyphs and fails
  when it is empty, an element pushes one fragment, other content is a frame of 5 by 4
  without a baseline.
\<close>

definition plain_math :: "(nat, nat, unit, nat, rstr, nat) math_ops" where
  "plain_math =
     \<lparr>realize = (\<lambda>chain c. Inr None), behaved = (\<lambda>children. children),
      font_in = (\<lambda>chain. 0),
      size_in = (\<lambda>chain. if chain = [] \<or> hd chain = [] then 10 else real (last (hd chain))),
      layout_content = (\<lambda>ctx c. Inr (Frame (5, 4) None [])),
      layout_text = (\<lambda>ctx t. if t = [] then Inl () else Inr (Glyphs t)),
      elem_layout_math = (\<lambda>x ctx. Inr (push ctx (Glyphs [x])))\<rparr>"

definition start_context :: "(nat, nat, rstr) math_context" where
  "start_context =
     \<lparr>ctx_outer = [], ctx_local = [], ctx_size = 10, space_width = 1 / 4, axis_height = 1 / 4,
      ctx_fragments = []\<rparr>"

definition sample_content :: "(nat, nat) content" where
  "sample_content =
     Equation (Sequence [Text [120], Styled (Sequence [Space, Math 7]) [14], Other 0])"

lemmas eval_math =
  layout_step_def layout_styled_def layout_h_def push_content_def push_def styles_def
  apply_styles_def plain_math_def
  start_context_def sample_content_def height_def Let_def

lemma well_behaved_plain_math: "well_behaved plain_math"
  by (simp add: well_behaved_def plain_math_def)

lemma layout_sample_content:
  "layout_math 5 plain_math sample_content start_context
     = Some (Inr (start_context\<lparr>ctx_fragments :=
         [Glyphs [120], Space_Fragment (7 / 2), Glyphs [7],
          Frame_Fragment (Frame (5, 4) (Some (9 / 2)) []) 10 True]\<rparr>))"
  by (simp add: eval_nat_numeral eval_math)

text \<open>
  A failure inside styled content returns before the saved styles are put back: the
  context that the caller keeps has the local styles and the size of the inner content.
\<close>

lemma failed_walk_keeps_styles:
  "layout_math 2 plain_math (Styled (Text []) [14]) start_context
     = Some (Inl ((), start_context\<lparr>ctx_local := [14], ctx_size := 14\<rparr>))"
  by (simp add: eval_nat_numeral eval_math)

section \<open>Properties of the walk\<close>

text \<open>
  C31. A call of \<^verbatim>\<open>layout_math\<close> that succeeds leaves the context as it found it but for
  the fragments, to which it has only added: the local styles and the font size that
  the styled branch changes are those of before the call, at every depth of nesting.
  This is assumed of the other math elements and proved of the function. A call that
  fails gives no such promise.
\<close>

theorem layout_math_restores:
  assumes "well_behaved ops" and "layout_math n ops c ctx = Some (Inr ctx')"
  shows "extends ctx ctx'"
  using assms(2)
proof (induction n arbitrary: c ctx ctx')
  case 0
  then show ?case by simp
next
  case (Suc n)
  from assms(1) _ Suc.prems [simplified] show ?case
    by (rule layout_step_extends) (rule Suc.IH)
qed

theorem layout_math_restores_witness:
  "well_behaved plain_math
   \<and> layout_math 5 plain_math sample_content start_context
       = Some (Inr (start_context\<lparr>ctx_fragments :=
           [Glyphs [120], Space_Fragment (7 / 2), Glyphs [7],
            Frame_Fragment (Frame (5, 4) (Some (9 / 2)) []) 10 True]\<rparr>))
   \<and> extends start_context (start_context\<lparr>ctx_fragments :=
           [Glyphs [120], Space_Fragment (7 / 2), Glyphs [7],
            Frame_Fragment (Frame (5, 4) (Some (9 / 2)) []) 10 True]\<rparr>)"
  using layout_math_restores [OF well_behaved_plain_math layout_sample_content]
    well_behaved_plain_math layout_sample_content
  by simp

text \<open>
  C33. With no show rules, and when the children that are left of a sequence are
  children of it, \<^verbatim>\<open>layout_math\<close> returns for every content and every context: fuel
  above the nesting of the content is enough, so the recursion of the code ends.
\<close>

theorem layout_math_total:
  assumes "no_show_rules ops" and "collapsing ops" and "depth c < n"
  shows "\<exists>r. layout_math n ops c ctx = Some r"
  using assms(3)
proof (induction n arbitrary: c ctx)
  case 0
  then show ?case by simp
next
  case (Suc n)
  have "\<exists>r. layout_math n ops c' a = Some r" if "depth c' < depth c" for c' a
    using that Suc.prems by (intro Suc.IH) simp
  with assms(1,2) have "\<exists>r. layout_step ops (layout_math n ops) c ctx = Some r"
    by (rule layout_step_total)
  then show ?case by simp
qed

theorem layout_math_total_witness:
  "no_show_rules plain_math \<and> collapsing plain_math \<and> depth sample_content < 5
   \<and> (\<exists>r. layout_math 5 plain_math sample_content start_context = Some r)"
proof -
  have 1: "no_show_rules plain_math" "collapsing plain_math"
    by (simp_all add: no_show_rules_def collapsing_def plain_math_def)
  have 2: "depth sample_content < 5" by (simp add: sample_content_def)
  from layout_math_total [OF 1 2] 1 2 show ?thesis by simp
qed

end
