(* ===== verification/Spec2Isabelle.thy ===== *)
theory Spec2Isabelle
  imports Source_Queries Source_Tests Handles Release_Build Syntax_Tree Math_Module Math_Layout
begin

text \<open>
  \<^bold>\<open>A verification development for the source-file model and the math module of the
  typst compiler.\<close>

  \<^bold>\<open>The program.\<close> \<^verbatim>\<open>src/crates/typst/src/syntax/source.rs\<close> keeps one source file as
  three coupled representations: the text, a table of line starts (\<^verbatim>\<open>Line\<close>: the byte
  offset and the UTF-16 offset of every line start), and a syntax tree. A \<^verbatim>\<open>Source\<close>
  is a shared handle (\<^verbatim>\<open>Arc<Repr>\<close>) to such a snapshot. The file has four groups of
  code: the construction of the table (\<^verbatim>\<open>lines\<close>, \<^verbatim>\<open>lines_from\<close>); the position queries
  (\<^verbatim>\<open>byte_to_line\<close>, \<^verbatim>\<open>byte_to_utf16\<close>, \<^verbatim>\<open>byte_to_column\<close>, \<^verbatim>\<open>utf16_to_byte\<close>,
  \<^verbatim>\<open>line_to_byte\<close>, \<^verbatim>\<open>line_to_range\<close>, \<^verbatim>\<open>line_column_to_byte\<close>, the three lengths); the
  operations that make or change a snapshot (\<^verbatim>\<open>new\<close>, \<^verbatim>\<open>detached\<close>, \<^verbatim>\<open>synthesized\<close>,
  \<^verbatim>\<open>replace\<close>, \<^verbatim>\<open>edit\<close>); and the unit tests. \<^verbatim>\<open>edit\<close> is the centre: it splices the
  text, repairs the table from the line of the edit on instead of building it again,
  and hands the tree to the incremental reparser. The parser, the reparser, the
  numbering of spans and the lookup by span are code of other modules, which this file
  only calls.

  \<^verbatim>\<open>src/crates/typst-library/src/math/mod.rs\<close> is the root of the math module. It has
  the function \<^verbatim>\<open>module\<close>, which builds the scope of the module; the equation element
  \<^verbatim>\<open>EquationElem\<close> with the traits that make it a numbered, referable and outlinable
  element (\<^verbatim>\<open>Synthesize\<close>, \<^verbatim>\<open>Show\<close>, \<^verbatim>\<open>Finalize\<close>, \<^verbatim>\<open>Count\<close>, \<^verbatim>\<open>LocalName\<close>,
  \<^verbatim>\<open>Refable\<close>, \<^verbatim>\<open>Outlinable\<close>); its \<^verbatim>\<open>Layout\<close>, which finds a math font, lays out the
  body and places the number; and \<^verbatim>\<open>LayoutMath\<close> for content, the walk that turns
  content into math fragments. The two files meet only through the compiler: the math
  module works on content that the parser made from a source.

  \<^bold>\<open>The theories\<close>, in the order of their imports.
  \<^item> \<open>Source_Prelude\<close>: panics as values (\<open>panic\<close>, \<open>'a result = panic + 'a\<close>), \<^verbatim>\<open>unwrap\<close>,
    the \<^verbatim>\<open>?\<close> operator (\<open>try_opt\<close>), \<^verbatim>\<open>usize\<close> subtraction that panics at zero
    (\<open>pred_usize\<close>), \<^verbatim>\<open>slice::get\<close> and \<^verbatim>\<open>slice::last\<close>, the shared list lemmas and the
    named collections of unfolding rules.
  \<^item> \<open>Rust_Str\<close>: \<^verbatim>\<open>char\<close> and \<^verbatim>\<open>str\<close> as far as the file uses them. A string is the list
    of its code points, a byte offset is the UTF-8 length of a prefix, and
    \<open>split_at_byte\<close> decides whether an offset is a character boundary. Slicing
    (\<open>str_get\<close>, \<open>str_from\<close>, \<open>str_to\<close>) and \<open>replace_range\<close> fail or panic inside a
    character as the standard library does.
  \<^item> \<open>Scanner\<close>: the scanner of the \<^verbatim>\<open>unscanny\<close> crate that \<^verbatim>\<open>lines_from\<close> drives, with
    \<open>eat_until\<close> over a closure that carries state.
  \<^item> \<open>Line_Index\<close>: \<^verbatim>\<open>struct Line\<close>, \<^verbatim>\<open>lines_from\<close> (its pattern closure
    \<open>count_newline\<close>, the closure of the iterator \<open>lines_from_next\<close>, the loop that
    drains it \<open>lines_from_iter\<close>) and \<^verbatim>\<open>lines\<close>. The splitting rule is stated twice,
    by recursion (\<open>line_starts\<close>) and by positions (\<open>line_break\<close>, \<open>entry\<close>); the
    scanner loop is proved equal to both. The lemmas give the table of an appended text,
    the order and the bounds of its records, and the number of its records.
  \<^item> \<open>Binary_Search\<close>: the loop of \<^verbatim>\<open>slice::binary_search_by_key\<close> and the match
    \<^verbatim>\<open>Ok(i) => i, Err(i) => i - 1\<close> of the queries (\<open>search_rank\<close>), with the contract on
    strictly increasing keys: the result is the number of keys at most the target,
    less one, and the subtraction overflows when there is no such key.
  \<^item> \<open>Source\<close>: \<^verbatim>\<open>struct Repr\<close> as the record \<open>repr\<close>, the interface to the syntax tree
    as the record \<open>syntax_ops\<close> over a type variable for the tree, every read method of
    \<^verbatim>\<open>Source\<close> under its own name (\<open>source_id\<close>, \<open>source_text\<close>, \<open>source_find\<close> where
    the name is taken), \<^verbatim>\<open>impl Hash\<close>, \<^verbatim>\<open>impl AsRef\<close> and \<^verbatim>\<open>impl Debug\<close> (\<open>fmt\<close>, with
    the text of a path as a parameter). The invariant \<open>source_inv\<close>
    says that the table of a snapshot is \<open>lines\<close> of its text; the lemmas compute
    each query under it on a text cut at the position.
  \<^item> \<open>Source_Queries\<close>: the properties of the read methods. Under the invariant each
    query is characterised as a function of the text: its result, its absence, and
    that it does not panic.
  \<^item> \<open>Source_Edit\<close>: \<^verbatim>\<open>new\<close>, \<^verbatim>\<open>detached\<close>, \<^verbatim>\<open>synthesized\<close>, \<^verbatim>\<open>replace\<close> and \<^verbatim>\<open>edit\<close>, each
    the whole method with its panics. \<open>edit_split\<close> computes an edit on a text cut at
    the range; \<open>edit_lines\<close> is the table it builds and \<open>crlf_agree\<close> the condition
    under which that table is the table of the new text; \<open>text_ops\<close> is an instance of
    the tree interface on which the operations run.
  \<^item> \<open>Source_Tests\<close>: the module \<^verbatim>\<open>tests\<close>, every test a boolean function. The model
    passes each of them; the helper of the edit test is characterised for all its
    inputs (\<open>edit_test_passes_iff\<close>), which shows what the test cannot find.
  \<^item> \<open>Edit_Protocol\<close>: runs of \<^verbatim>\<open>replace\<close> and \<^verbatim>\<open>edit\<close> as a datatype of operations
    with a step function, the text alone as the abstract state, the guard
    \<open>safe_edit\<close>, the refinement of the abstract run by the run on snapshots, and the
    snapshots reachable by guarded operations as an inductive predicate.
  \<^item> \<open>Handles\<close>: \<^verbatim>\<open>Source\<close> as a handle into a heap of reference-counted cells,
    \<^verbatim>\<open>Arc::make_mut\<close> in \<^verbatim>\<open>replace\<close> and \<^verbatim>\<open>edit\<close> (\<open>handle_edit\<close> in the order of the
    method: the two reads, then \<^verbatim>\<open>make_mut\<close>, then the changes; \<open>handle_edit_eq\<close>
    relates it to \<open>edit\<close> on the snapshot), the callers as a step relation over
    slots that hold handles, the invariant of the counts, the isolation of handles,
    and \<open>worlds_heap_all\<close>: a property of snapshots that the operations establish
    and preserve holds of every cell of every world.
  \<^item> \<open>Table_Invariant\<close>: the well-formedness of a line table that the binary search
    needs (\<open>table_wf\<close>: not empty, strictly increasing in both offsets, inside the
    text), the snapshots that any operations give (\<open>obtainable\<close>, without the guard
    of \<open>Edit_Protocol\<close>), and \<open>edit_unfold\<close>, the edit on a text cut at the range
    without any assumption on the table.
  \<^item> \<open>Release_Build\<close>: the four queries that compute \<^verbatim>\<open>i - 1\<close>, with \<^verbatim>\<open>usize\<close> as a word
    of 64 bits whose subtraction wraps (\<open>search_rank_wrapping\<close>,
    \<open>byte_to_line_release\<close>, \<open>byte_to_utf16_release\<close>, \<open>byte_to_column_release\<close>,
    \<open>utf16_to_byte_release\<close>), \<^verbatim>\<open>edit\<close> over them (\<open>edit_release\<close>) and
    \<^verbatim>\<open>line_to_range\<close> with its \<^verbatim>\<open>line_idx + 1\<close> (\<open>line_to_range_release\<close>): the build
    without overflow checks.
  \<^item> \<open>Syntax_Tree\<close>: the tree side of the interface from the contracts of the
    specification: nodes with spans (\<open>syntax_node\<close>), numbering in pre-order
    (\<open>numberize_node\<close>), the uniform span of a synthesized tree (\<open>synthesize_node\<close>),
    lookup by span with the byte offset of the node (\<open>find_in\<close>) and \<open>tree_ops\<close>, the
    instance of \<open>syntax_ops\<close> over a parser that stays a parameter, whose reparser
    parses the whole text again.
  \<^item> \<open>Math_Module\<close>: \<^verbatim>\<open>module\<close> on a deduplicating scope, with its forty-one definitions
    in their order; the definitions of the operators, the spacings and the symbols are
    parameters.
  \<^item> \<open>Equation\<close>: \<^verbatim>\<open>struct EquationElem\<close> as the record \<open>equation_elem\<close>, a field of
    which is set or not; the style chain as a record of the properties that are read
    (\<open>style_chain\<close>, extended by the layout); the accessors \<open>block\<close>, \<open>numbering\<close>,
    \<open>supplement\<close>; content and counters as the interface \<open>meta_ops\<close>; one definition
    for every trait method, \<open>show_equation\<close> and \<open>count_update\<close> where the name is
    taken or shared.
  \<^item> \<open>Equation_Layout\<close>: frames with real lengths (\<open>frame\<close>, \<open>translate\<close>, \<open>resize\<close>,
    \<open>push_frame\<close>), the font book and the layout of the body and of the counter as the
    interface \<open>layout_ops\<close>, and \<^verbatim>\<open>layout\<close> with its three parts \<open>find_math_font\<close>,
    \<open>place_number\<close> and \<open>inline_metrics\<close>.
  \<^item> \<open>Math_Layout\<close>: content as a datatype of the kinds that \<^verbatim>\<open>layout_math\<close> tells
    apart, the math context as the record \<open>math_context\<close>, show rules and the layout
    of text and frames as the interface \<open>math_ops\<close>, the body of the function as
    \<open>layout_step\<close> (its tests in the order of the code, the recursive call a
    parameter) and \<open>layout_math\<close> as its iteration with fuel.
  \<^item> This theory: the properties that span the components.

  \<^bold>\<open>How the model corresponds to the code.\<close> A method of \<^verbatim>\<open>Source\<close> is a function of
  the snapshot; a method that takes \<^verbatim>\<open>&mut self\<close> returns the new snapshot. A panic
  (\<^verbatim>\<open>unwrap\<close>, \<^verbatim>\<open>expect\<close>, a slice outside a character boundary, \<^verbatim>\<open>i - 1\<close> at zero) is
  the left summand of the result, so a query has the type \<open>nat option result\<close>: a panic,
  an absent value or a value. \<^verbatim>\<open>usize\<close> is \<open>nat\<close>: the only subtraction that can go
  below zero is modelled with the panic of a build with overflow checks, and no
  addition of the file can exceed the length of the text, which the model does not
  bound. \<open>Release_Build\<close> gives the same subtraction on \<open>64 word\<close>, where it wraps;
  its theorems assume a table of fewer than \<open>2 ^ 64\<close> records, which every table in
  memory has. A span is the pair of an identity and a number; the specification fixes
  no layout of bits for it, and numbering in \<open>Syntax_Tree\<close> counts from 0 without
  gaps and does not fail.
  \<^verbatim>\<open>Prehashed\<close> caches a hash and is the identity here. A character is a natural number; the theorems hold for every
  list of numbers and therefore for every list of Unicode scalar values. The line
  terminators are those that \<open>is_newline\<close> accepts, line feed and carriage return; the
  function itself belongs to the lexer. All loops are total functions: the scanner loop
  and the iterator terminate because the text after the cursor gets shorter, the binary
  search because the interval does, so no fuel is needed and no bound is chosen.

  In the math module a call that returns \<^verbatim>\<open>SourceResult\<close> returns an error or a value
  (\<open>'e + 'a\<close>); \<^verbatim>\<open>outline\<close>, which can also panic, returns a result of that. A method
  that takes \<^verbatim>\<open>&mut MathContext\<close> takes the context and returns it, with the error when
  it fails, because the caller keeps the context. The duplicate definition in a
  deduplicating scope is the panic of a build with debug assertions. Lengths are real
  numbers: the layout is modelled without the rounding of \<^verbatim>\<open>f64\<close>, an infinite
  width of a region is an absent width, and the size of the text is not assumed to be
  positive, so a theorem that needs it says so. \<^verbatim>\<open>outline\<close> keeps the two calls on the
  counter apart, each with its error. The methods of the context that \<^verbatim>\<open>layout_math\<close>
  calls (\<^verbatim>\<open>realize\<close>, \<^verbatim>\<open>layout_content\<close>, \<^verbatim>\<open>layout_text\<close>) take it by mutable reference
  in the code and are taken to leave its fields as they are. \<^verbatim>\<open>layout_math\<close> is the one function with fuel:
  a show rule can return content to which a show rule applies again, so the recursion
  of the code need not end. \<open>layout_math n\<close> makes at most \<open>n\<close> nested calls and
  returns \<open>None\<close> when that is not enough; \<open>layout_math_fuel_mono\<close> says that more
  fuel does not change a result, and \<open>layout_math_total\<close> that fuel above the nesting
  of the content is enough when no show rule applies.

  \<^bold>\<open>What is proved.\<close>
  \<^item> The table: the scanner loop computes the splitting rule; the table starts at zero,
    increases strictly in both offsets, lies on character boundaries; \<^verbatim>\<open>\r\n\<close> is one
    terminator; the scan can be resumed at any cut of the text.
  \<^item> The queries, under the invariant: each is characterised by the text, both round
    trips hold, no query panics, and absence is signalled where the code signals it.
    \<open>utf16_to_byte_correct\<close> and \<open>line_column_to_byte_clamps\<close> state what the code
    returns for an offset inside a surrogate pair and for a column beyond the line.
  \<^item> The edit: \<open>edit_preserves_inv\<close> and \<open>edit_index_exact\<close> say that the incremental
    table equals the table built from scratch exactly when \<open>crlf_agree\<close> holds;
    \<open>edit_crlf_breaks_queries\<close> exhibits an edit after which the queries panic;
    \<open>edit_panics_iff\<close> and \<open>edit_delegates\<close> give the precondition of the edit and
    what it passes to the reparser.
  \<^item> Runs and handles: a run of safe operations refines the run on the text; reachable
    snapshots satisfy the invariant; reference counts equal the number of handles; a
    mutation through one handle is not seen through another.
  \<^item> Every snapshot, safe edits or not: the table is well formed
    (\<open>obtainable_table_wf\<close>), \<^verbatim>\<open>byte_to_line\<close> panics exactly below the first record
    (\<open>byte_to_line_table_wf\<close>), and \<^verbatim>\<open>replace\<close> with the text of the snapshot brings
    the invariant back (\<open>replace_recovers\<close>).
  \<^item> The build without overflow checks: \<^verbatim>\<open>byte_to_line\<close> returns \<open>2 ^ 64 - 1\<close> where
    the checked build panics and the index of the checked build elsewhere
    (\<open>release_line_in_bounds_iff\<close>); the three queries that look the index up
    return \<^verbatim>\<open>None\<close> there and agree with the checked build elsewhere
    (\<open>release_refines_checked\<close>); \<^verbatim>\<open>edit\<close> returns the same in both builds and panics
    on the same inputs, in the \<^verbatim>\<open>unwrap\<close> where the checked build panics in the
    subtraction (\<open>edit_release_refines\<close>); \<^verbatim>\<open>line_to_range\<close> is the same in both
    builds for every index, because the sum is computed only for an index into the
    table (\<open>line_to_range_release_eq\<close>).
  \<^item> Snapshots over trees: with a parser that covers its input the tree of a snapshot
    stays numbered in pre-order under the identity of the snapshot through every run
    of \<^verbatim>\<open>replace\<close> and \<^verbatim>\<open>edit\<close> (\<open>tree_numbered_throughout\<close>); \<^verbatim>\<open>find\<close> returns the
    node of a span with a range inside the text and nothing for an unknown span
    (\<open>find_by_span\<close>); a synthesized tree carries one span (\<open>synthesized_uniform\<close>).
  \<^item> Across handles, tables and trees: every handle of every world over trees reads a
    snapshot with a well-formed table and a numbered tree, whatever the callers did
    (\<open>handles_read_well_formed\<close>).

  \<^item> The math module: \<^verbatim>\<open>module\<close> returns exactly when no name is defined twice, and
    its own names are distinct; synthesis fixes the block flag, the numbering and the
    supplement of an equation, fails only with the supplement function, and makes
    \<^verbatim>\<open>Count::update\<close> and \<^verbatim>\<open>Refable::supplement\<close> right; \<open>outline_cases\<close> gives the
    outline entry and its one panic.
  \<^item> The layout: the number of a block equation does not overlap the body when the line
    has room for both, which a region of infinite width gives for a text size that is
    not negative (\<open>number_line_width_infinite\<close>) and a finite region need not
    (\<open>number_overlaps_wide_body\<close>); the metrics of an inline
    equation; the errors of the layout. A successful \<^verbatim>\<open>layout_math\<close> returns the context
    with fragments added and nothing else changed; a failed one need not
    (\<open>failed_walk_keeps_styles\<close>).
  \<^item> Across the math theories: for a synthesized equation the layout draws a number
    exactly when \<^verbatim>\<open>Count::update\<close> steps the counter (\<open>number_drawn_iff_counted\<close>).

  \<^bold>\<open>What is not modelled.\<close> The grammar of the parser and the incremental reparser:
  the theorems of the snapshot hold for every parser and reparser behind \<open>syntax_ops\<close>,
  and those of \<open>Syntax_Tree\<close> for every parser that covers its input, with the
  reparser that gives up on every edit; that a node outside an edit keeps its span is
  a property of the incremental reparser and is not stated. The error nodes of a tree,
  the typed view of the root and the text of the path that \<^verbatim>\<open>impl Debug\<close> prints are
  parameters. Of the math module, the
  imports and the list of submodules are declarations; content, show rules, fonts, the
  layout of text and of the other math elements, counters, numberings and
  \<^verbatim>\<open>BehavedBuilder\<close> belong to other files and are the interfaces \<open>meta_ops\<close>,
  \<open>layout_ops\<close> and \<open>math_ops\<close>; the theorems hold for every implementation of
  them, under the assumptions that the theorems name. The span of the element in the
  error of the layout and the tracing attributes are left out.
\<close>

section \<open>Worlds reached by safe events\<close>

text \<open>
  The worlds that the callers reach when every edit they make is safe on the text it is
  applied to.
\<close>

text \<open>A world over trees: one handle to the snapshot of a text, built with the flat parser.\<close>

definition tree_world :: "syntax_node world" where
  "tree_world = \<lparr>heap = [\<lparr>strong = 1, val = tree_snapshot (File 1) [97, 98]\<rparr>], slots = [Some 0]\<rparr>"

inductive safe_worlds :: "('n, 'e, 'm, 'l) syntax_ops \<Rightarrow> 'n world \<Rightarrow> bool"
  for ops :: "('n, 'e, 'm, 'l) syntax_ops" where
  safe_init: "safe_worlds ops \<lparr>heap = [], slots = []\<rparr>"
| safe_step: "safe_worlds ops w \<Longrightarrow> safe_event w ev \<Longrightarrow> step ops w ev w' \<Longrightarrow> safe_worlds ops w'"

lemma safe_worlds_inv:
  assumes "safe_worlds ops w"
  shows "wf w \<and> heap_inv (heap w)"
  using assms
proof (induction rule: safe_worlds.induct)
  case safe_init
  show ?case by (simp add: wf_def heap_inv_def)
next
  case (safe_step w ev w')
  then show ?case by (blast intro: step_preserves_wf step_preserves_heap_inv)
qed

lemma safe_worlds_edited_world: "safe_worlds text_ops edited_world"
proof -
  have e0: "safe_event \<lparr>heap = [], slots = []\<rparr> (New Detached [97, 98])" by simp
  have e1: "safe_event single_world (Clone 0)" by simp
  have e2: "safe_event shared_world (Edit_At 1 (1, 1) [120])"
    by (simp add: shared_world_def arc_get_def safe_edit_def crlf_agree_def ends_with_def
        char_len_utf8_def)
  from safe_step [OF safe_init e0 step_empty_single]
  have "safe_worlds text_ops single_world" .
  from safe_step [OF this e1 step_single_shared]
  have "safe_worlds text_ops shared_world" .
  from safe_step [OF this e2 step_shared_edited] show ?thesis .
qed

section \<open>Properties that span the components\<close>

text \<open>
  C18. What every handle reads is consistent: in a world that the callers reach by
  construction, cloning, dropping, replacing and safe edits, every slot that holds a
  handle reads, from a cell that is alive, a snapshot whose line table is the table of
  its text, so that the position queries through any handle do not panic and convert
  back and forth.
\<close>

theorem handles_read_consistent_snapshots:
  assumes "safe_worlds ops w" and "i < length (slots w)" and "slots w ! i = Some a"
  shows "0 < strong (heap w ! a) \<and> source_inv (arc_get (heap w) a)
    \<and> no_panic (byte_to_line (arc_get (heap w) a) b)
    \<and> no_panic (utf16_to_byte (arc_get (heap w) a) u)"
proof -
  from safe_worlds_inv [OF assms(1)] have wf: "wf w" and hi: "heap_inv (heap w)" by simp_all
  from wf_slot [OF wf assms(2,3)] hi have "source_inv (arc_get (heap w) a)"
    by (simp add: heap_inv_iff arc_get_def)
  with wf_slot [OF wf assms(2,3)] show ?thesis
    by (simp add: byte_to_line_inv utf16_to_byte_inv)
qed

theorem handles_read_consistent_snapshots_witness:
  "safe_worlds text_ops edited_world \<and> 1 < length (slots edited_world)
   \<and> slots edited_world ! 1 = Some 1
   \<and> 0 < strong (heap edited_world ! 1) \<and> source_inv (arc_get (heap edited_world) 1)
   \<and> arc_get (heap edited_world) 1 = snapshot [97, 120, 98]
   \<and> no_panic (byte_to_line (arc_get (heap edited_world) 1) 7)
   \<and> no_panic (utf16_to_byte (arc_get (heap edited_world) 1) 7)"
proof -
  have h: "1 < length (slots edited_world)" "slots edited_world ! 1 = Some 1"
    "arc_get (heap edited_world) 1 = snapshot [97, 120, 98]"
    by (simp_all add: edited_world_def arc_get_def)
  from handles_read_consistent_snapshots [OF safe_worlds_edited_world h(1,2), of 7 7] h
    safe_worlds_edited_world
  show ?thesis by simp
qed

text \<open>
  C20. An edit does not move what precedes it: after a safe edit of a snapshot whose
  table is the table of its text, the line, the UTF-16 offset and the column of every
  byte offset before the start of the range are what they were before the edit.
\<close>

theorem edit_keeps_earlier_positions:
  assumes "source_inv s" and "repr_text s = p @ m @ q" and "crlf_agree p m q w"
    and "edit ops s (str_len p, str_len p + str_len m) w = Inr (s', r)" and "b < str_len p"
  shows "byte_to_line s' b = byte_to_line s b \<and> byte_to_utf16 s' b = byte_to_utf16 s b
    \<and> byte_to_column s' b = byte_to_column s b"
proof -
  from assms(3,4) edit_lines_correct_iff [of p m q w]
  have s': "source_inv s'" "repr_text s' = p @ w @ q"
    by (auto simp: edit_split [OF assms(1,2)] Let_def source_inv_def)
  note old = queries_before_cut [OF assms(1,2,5)]
    and new = queries_before_cut [OF s' assms(5)]
  show ?thesis by (simp only: old new)
qed

theorem edit_keeps_earlier_positions_witness:
  "source_inv (snapshot [228, LF, 98, CR]) \<and> repr_text (snapshot [228, LF, 98, CR]) = [228, LF, 98, CR] @ [] @ []
   \<and> crlf_agree [228, LF, 98, CR] [] [] [LF, 99]
   \<and> edit text_ops (snapshot [228, LF, 98, CR]) (str_len [228, LF, 98, CR], str_len [228, LF, 98, CR] + str_len []) [LF, 99]
       = Inr (snapshot [228, LF, 98, CR, LF, 99], (0, 7))
   \<and> 3 < str_len [228, LF, 98, CR]
   \<and> byte_to_line (snapshot [228, LF, 98, CR]) 3 = Inr (Some 1)
   \<and> byte_to_line (snapshot [228, LF, 98, CR, LF, 99]) 3 = Inr (Some 1)
   \<and> byte_to_utf16 (snapshot [228, LF, 98, CR, LF, 99]) 3 = byte_to_utf16 (snapshot [228, LF, 98, CR]) 3
   \<and> byte_to_column (snapshot [228, LF, 98, CR, LF, 99]) 3 = byte_to_column (snapshot [228, LF, 98, CR]) 3"
proof -
  let ?p = "[228, LF, 98, CR]"
  have 1: "source_inv (snapshot ?p)" by simp
  have 2: "repr_text (snapshot ?p) = ?p @ [] @ []" by simp
  have 3: "crlf_agree ?p [] [] [LF, 99]" by (simp add: crlf_agree_def ends_with_def starts_with_def)
  have 4: "edit text_ops (snapshot ?p) (str_len ?p, str_len ?p + str_len []) [LF, 99]
      = Inr (snapshot [228, LF, 98, CR, LF, 99], (0, 7))"
    by (subst edit_split [OF 1 2]) (simp add: Let_def text_ops_def snapshot_def eval_edit)
  have 5: "3 < str_len ?p" by (simp add: char_len_utf8_def)
  have 6: "byte_to_line (snapshot ?p) 3 = Inr (Some 1)" by (simp add: eval_query)
  from edit_keeps_earlier_positions [OF 1 2 3 4 5] 1 2 3 4 5 6 show ?thesis by simp
qed

section \<open>Handles to snapshots over trees\<close>

lemma worlds_tree_world: "worlds (tree_ops flat_parser) tree_world"
proof -
  let ?w0 = "\<lparr>heap = [], slots = []\<rparr> :: syntax_node world"
  have "handle_new (tree_ops flat_parser) (heap ?w0) (File 1) [97, 98]
      = Inr ([\<lparr>strong = 1, val = tree_snapshot (File 1) [97, 98]\<rparr>], 0)"
    by (simp add: handle_new_def new_flat arc_new_def)
  from worlds_step [OF worlds_init step_new [of "tree_ops flat_parser" ?w0, OF this]]
  show ?thesis by (simp add: tree_world_def)
qed

text \<open>
  C19. Whatever the callers do, every handle reads a whole snapshot. In every world
  that the callers reach over trees, by any constructions, clones, drops, replacements
  and edits, safe for the line table or not, with a parser that covers its input, the
  cell of every handle is live, its line table is well formed, and its tree covers its
  text and is numbered in pre-order under its identity. The table is that of the code
  for every parser and reparser; the tree is that of \<open>tree_ops\<close>, with its numbering
  from 0 and its reparser that parses the whole text again.
\<close>

theorem handles_read_well_formed:
  assumes "covers p" and "worlds (tree_ops p) w" and "i < length (slots w)"
    and "slots w ! i = Some a"
  shows "0 < strong (heap w ! a) \<and> table_wf (arc_get (heap w) a) \<and> tree_inv (arc_get (heap w) a)"
proof -
  let ?P = "\<lambda>s. table_wf s \<and> tree_inv s"
  have "wf w \<and> heap_all ?P (heap w)"
  proof (rule worlds_heap_all [OF assms(2)])
    show "?P v" if "new (tree_ops p) fid t = Inr v" for fid t v
      using that new_tree_inv [OF assms(1) that]
      by (auto simp: new_tree_ops source_inv_def intro!: source_inv_table_wf)
    show "?P v" if "?P s" "replace (tree_ops p) s t = Inr v" for s t v
      using that apply_op_table_wf [of s "tree_ops p" "Replace t" v]
        apply_op_tree_inv [OF assms(1), of s "Replace t" v]
      by (simp add: apply_op_def)
    show "?P v" if "?P s" "edit (tree_ops p) s r x = Inr (v, rg)" for s r x v rg
      using that apply_op_table_wf [of s "tree_ops p" "Edit r x" v]
        apply_op_tree_inv [OF assms(1), of s "Edit r x" v]
      by (simp add: apply_op_def)
  qed
  with wf_slot [of w i a] assms(3,4) show ?thesis
    by (simp add: heap_all_iff arc_get_def)
qed

theorem handles_read_well_formed_witness:
  "covers flat_parser \<and> worlds (tree_ops flat_parser) tree_world
   \<and> slots tree_world ! 0 = Some 0
   \<and> table_wf (arc_get (heap tree_world) 0) \<and> tree_inv (arc_get (heap tree_world) 0)"
proof -
  have "slots tree_world ! 0 = Some 0" "0 < length (slots tree_world)"
    by (simp_all add: tree_world_def)
  with handles_read_well_formed [OF covers_flat_parser worlds_tree_world, of 0 0]
    worlds_tree_world
  show ?thesis by simp
qed

section \<open>The number of an equation and its counter\<close>

text \<open>
  C37. The equations whose number is drawn are the equations that step the counter.
  For an element that synthesis returned, under any style chain of the layout for
  which a math font is found and the body is laid out without an error: when
  \<^verbatim>\<open>Count::update\<close> steps the counter, the layout lays out the number that
  \<^verbatim>\<open>Refable::numbering\<close> returns and places it beside the body (or fails with the error
  of the counter); when \<^verbatim>\<open>Count::update\<close> does not step it, the layout does not ask for
  the number. This needs the synthesis: before it, the two read the fields under
  different style chains.
\<close>

theorem number_drawn_iff_counted:
  assumes "synthesize mops e sty = Inr e'"
    and "find_math_font lops (text_families sty') = Some fnt"
    and "layout_frame lops fnt (block e' sty') e' = Inr bf"
  shows "(count_update e' = Some (Step 1) \<longrightarrow>
            (\<exists>n. refable_numbering e' = Some n
               \<and> layout lops e' sty' rg
                   = (case layout_counter lops n (region_base rg) of
                        Inl err \<Rightarrow> Inl (Failed err)
                      | Inr number \<Rightarrow> Inr (meta lops (place_number sty' rg bf number)))))
    \<and> (count_update e' = None \<longrightarrow>
            layout lops e' sty' rg
              = Inr (meta lops (if block e' sty' then bf else inline_metrics lops sty' fnt bf)))
    \<and> (count_update e' = Some (Step 1) \<or> count_update e' = None)"
proof -
  from assms(1) obtain c where e': "e' = e\<lparr>block_field := Some (block e sty),
      numbering_field := Some (numbering e sty),
      supplement_field := Some (Custom (Some (Supplement_Content c)))\<rparr>"
    by (rule synthesize_InrD)
  have fixed: "block e' sty' = block e sty" "numbering e' sty' = numbering e sty"
    "refable_numbering e' = numbering e sty"
    "count_update e' = (if block e sty \<and> numbering e sty \<noteq> None then Some (Step 1) else None)"
    unfolding e' by (simp_all add: block_def numbering_def refable_numbering_def count_update_def)
  from assms(2,3) show ?thesis
    unfolding fixed
    by (cases "block e sty"; cases "numbering e sty")
      (simp_all add: layout_def fixed Let_def split: sum.split)
qed

theorem number_drawn_iff_counted_witness:
  "synthesize text_meta raw_equation plain_styles
     = Inr (raw_equation\<lparr>numbering_field := Some (Some 1),
             supplement_field := Some (Custom (Some (Supplement_Content [69, 113, 117, 97, 116, 105, 111, 110])))\<rparr>)
   \<and> count_update (raw_equation\<lparr>numbering_field := Some (Some 1),
             supplement_field := Some (Custom (Some (Supplement_Content [69, 113, 117, 97, 116, 105, 111, 110])))\<rparr>)
       = Some (Step 1)
   \<and> layout plain_layout (raw_equation\<lparr>numbering_field := Some (Some 1),
             supplement_field := Some (Custom (Some (Supplement_Content [69, 113, 117, 97, 116, 105, 111, 110])))\<rparr>)
         plain_styles wide_region
       = Inr (Frame (130, 10) (Some 8) [((20, 0), Leaf (90, 10) 0), ((110, 2), Group number_frame)])"
proof -
  let ?e' = "raw_equation\<lparr>numbering_field := Some (Some 1),
    supplement_field := Some (Custom (Some (Supplement_Content [69, 113, 117, 97, 116, 105, 111, 110])))\<rparr>"
  have 1: "synthesize text_meta raw_equation plain_styles = Inr ?e'"
    by (simp add: eval_equation plain_styles_def)
  have 2: "find_math_font plain_layout (text_families plain_styles) = Some 1"
    by (simp add: eval_layout)
  have 3: "layout_frame plain_layout 1 (block ?e' plain_styles) ?e' = Inr body_frame"
    by (simp add: plain_layout_def)
  have 4: "count_update ?e' = Some (Step 1)" by (simp add: eval_equation)
  have 5: "layout plain_layout ?e' plain_styles wide_region
      = Inr (Frame (130, 10) (Some 8) [((20, 0), Leaf (90, 10) 0), ((110, 2), Group number_frame)])"
    by (simp add: eval_layout)
  from number_drawn_iff_counted [OF 1 2 3, of wide_region] 1 4 5 show ?thesis by simp
qed

end
